(* ===== verification/Prelude.thy ===== *)
theory Prelude
  imports Complex_Main "HOL-Library.Multiset" "HOL-Library.Product_Lexorder"
begin

text \<open>
  Shared vocabulary of the development of \<open>src/main.py\<close>: node, key and edge
  identifiers of the networkx multigraph, the distance values of the search
  (Python floats with \<open>float("inf")\<close>, modelled as exact reals extended by
  \<open>Inf\<close>; floating-point rounding is not modelled), the Python exceptions the
  core can raise, and generic lemmas on lists, functions and cardinalities
  that the component theories share.
\<close>

section \<open>Identifiers\<close>

text \<open>osmnx node ids are non-negative integers; a multigraph edge is
  \<open>(u, v, key)\<close>, as \<open>G.edges(keys=True)\<close> yields it.\<close>

type_synonym node = nat
type_synonym key = nat
type_synonym edge = "node \<times> node \<times> key"

section \<open>Distances: reals extended by infinity\<close>

datatype dist = Fin real | Inf

instantiation dist :: linorder
begin

fun less_eq_dist :: "dist \<Rightarrow> dist \<Rightarrow> bool" where
  "less_eq_dist (Fin a) (Fin b) = (a \<le> b)"
| "less_eq_dist _ Inf = True"
| "less_eq_dist Inf (Fin _) = False"

definition less_dist :: "dist \<Rightarrow> dist \<Rightarrow> bool" where
  "less_dist x y = (x \<le> y \<and> \<not> y \<le> x)"

instance
proof
  fix x y z :: dist
  show "x < y \<longleftrightarrow> x \<le> y \<and> \<not> y \<le> x" by (simp add: less_dist_def)
  show "x \<le> x" by (cases x) auto
  show "x \<le> y \<Longrightarrow> y \<le> z \<Longrightarrow> x \<le> z" by (cases x; cases y; cases z) auto
  show "x \<le> y \<Longrightarrow> y \<le> x \<Longrightarrow> x = y" by (cases x; cases y) auto
  show "x \<le> y \<or> y \<le> x" by (cases x; cases y) auto
qed

end

text \<open>Python's \<open>d + w\<close> for a distance \<open>d\<close> and a float weight \<open>w\<close>:
  \<open>inf + w = inf\<close>.\<close>

fun dist_add :: "dist \<Rightarrow> real \<Rightarrow> dist" where
  "dist_add (Fin a) w = Fin (a + w)"
| "dist_add Inf w = Inf"

lemma dist_less_simps [simp]:
  "Fin a < Fin b \<longleftrightarrow> a < b"
  "Fin a < Inf"
  "\<not> Inf < x"
  "x < Inf \<longleftrightarrow> x \<noteq> Inf"
  by (cases x; auto simp: less_dist_def)+

lemma dist_le_Inf_iff [simp]: "Inf \<le> x \<longleftrightarrow> x = Inf"
  by (cases x) auto

lemma dist_add_less:
  "0 < w \<Longrightarrow> dist_add d w < x \<Longrightarrow> d < dist_add d w"
  by (cases d) auto

lemma dist_add_Inf_iff [simp]: "dist_add d w = Inf \<longleftrightarrow> d = Inf"
  by (cases d) auto

lemma dist_add_mono: "d \<le> d' \<Longrightarrow> dist_add d w \<le> dist_add d' w"
  by (cases d; cases d') auto

section \<open>Python exceptions of the core\<close>

text \<open>\<open>KeyError\<close>: a node or edge id that the graph does not hold (\<open>G.nodes[n]\<close>,
  \<open>G[u][v]\<close>, \<open>G.edges[e]\<close>); \<open>ZeroDivisionError\<close>: the mean of an empty
  speed list in \<open>reconstruct_path\<close>, or a speed limit of \<open>0\<close> when the
  weights are computed; \<open>ValueError\<close>: \<open>int\<close> of a string that is not a
  decimal numeral, or \<open>min\<close> of an empty list, when the speed limits are
  cleaned.\<close>

datatype error = KeyError | ZeroDivisionError | ValueError

section \<open>Shared lemmas\<close>

named_theorems frame_simps
  "equations saying which state fields an operation of the model leaves unchanged"

text \<open>A fold of point updates with one value over a list of keys.\<close>

lemma fold_fun_upd_const:
  "fold (\<lambda>x f. f(x := c)) xs f = (\<lambda>y. if y \<in> set xs then c else f y)"
  by (induction xs arbitrary: f) (auto simp: fun_eq_iff)

text \<open>Marking one more element of a finite set decreases the number of unmarked
  ones: the termination argument of the search loop.\<close>

lemma card_unmarked_decreases:
  assumes "finite A" "x \<in> A" "\<not> P x"
  shows "card {n \<in> A. \<not> (P(x := True)) n} < card {n \<in> A. \<not> P n}"
proof -
  have "{n \<in> A. \<not> (P(x := True)) n} = {n \<in> A. \<not> P n} - {x}" by auto
  moreover have "x \<in> {n \<in> A. \<not> P n}" using assms by simp
  moreover have "finite {n \<in> A. \<not> P n}" using assms(1) by simp
  ultimately show ?thesis by (metis card_Diff1_less)
qed

lemma card_marked_increases:
  assumes "finite A" "x \<in> A" "\<not> P x"
  shows "card {n \<in> A. (P(x := True)) n} = Suc (card {n \<in> A. P n})"
proof -
  have "{n \<in> A. (P(x := True)) n} = insert x {n \<in> A. P n}" using assms by auto
  moreover have "x \<notin> {n \<in> A. P n}" using assms by simp
  ultimately show ?thesis using assms(1) by simp
qed

text \<open>Stepping to an element with a smaller value leaves fewer elements below:
  the termination argument of walks along links that decrease a value.\<close>

lemma card_below_decreases:
  fixes f :: "'a \<Rightarrow> 'b::linorder"
  assumes "finite A" "y \<in> A" "f y < f x"
  shows "card {z \<in> A. f z < f y} < card {z \<in> A. f z < f x}"
proof (rule psubset_card_mono)
  show "finite {z \<in> A. f z < f x}" using assms(1) by simp
  show "{z \<in> A. f z < f y} \<subset> {z \<in> A. f z < f x}"
    using assms(2,3) by (auto intro: less_trans)
qed

lemma sum_list_pos:
  fixes xs :: "real list"
  shows "xs \<noteq> [] \<Longrightarrow> \<forall>x \<in> set xs. 0 < x \<Longrightarrow> 0 < sum_list xs"
proof (induction xs)
  case Nil
  then show ?case by simp
next
  case (Cons x xs)
  have "0 \<le> sum_list xs" using Cons.prems(2) by (intro sum_list_nonneg) auto
  with Cons.prems(2) show ?case by simp
qed

end
