(* ===== verification/Graph.thy ===== *)
theory Graph
  imports Prelude
begin

text \<open>
  The Graph Model of \<open>src/main.py\<close>: the osmnx \<open>MultiDiGraph\<close> \<open>G\<close> with its
  per-edge data (\<open>length\<close>, cleaned \<open>maxspeed\<close>, \<open>weight\<close>), and the mutable
  attributes that the script stores on nodes and edges (\<open>visited\<close>,
  \<open>distance\<close>, \<open>previous\<close>, \<open>size\<close>, \<open>highlight\<close>, and the edge style set
  by the \<open>style_*\<close> helpers), together with the module globals \<open>stage\<close> and
  \<open>frame_count\<close>. The graph itself is immutable during a run; the attributes
  and globals form the record \<open>gstate\<close>, threaded through every operation.
\<close>

section \<open>The graph\<close>

record edata =
  e_length :: real
  e_maxspeed :: real
  e_weight :: real

text \<open>\<open>g_nodes\<close> is \<open>G.nodes\<close> in iteration order, \<open>g_edges\<close> is
  \<open>G.edges(keys=True, data=True)\<close> in iteration order (grouped by source node,
  as networkx iterates its adjacency).\<close>

record graph =
  g_nodes :: "node list"
  g_edges :: "(edge \<times> edata) list"

text \<open>\<open>G.out_edges(n, keys=True)\<close> with the data of each edge.\<close>

definition out_edges :: "graph \<Rightarrow> node \<Rightarrow> (edge \<times> edata) list" where
  "out_edges g n = [p \<leftarrow> g_edges g. fst (fst p) = n]"

text \<open>\<open>G.edges[e]\<close>: the data of an edge id, \<open>None\<close> where networkx raises
  \<open>KeyError\<close>.\<close>

definition edge_data :: "graph \<Rightarrow> edge \<Rightarrow> edata option" where
  "edge_data g e = map_of (g_edges g) e"

text \<open>\<open>G[u][v]\<close>: the keys of the parallel edges from \<open>u\<close> to \<open>v\<close>.\<close>

definition edge_keys :: "graph \<Rightarrow> node \<Rightarrow> node \<Rightarrow> key list" where
  "edge_keys g u v =
     map (\<lambda>p. snd (snd (fst p))) (filter (\<lambda>p. fst (fst p) = u \<and> fst (snd (fst p)) = v) (g_edges g))"

text \<open>What networkx and the cleaning loop (lines 27--37) guarantee of \<open>G\<close>: node
  ids are distinct, edge ids are distinct, every edge joins two nodes of the
  graph, its weight and speed limit are positive, and the first edge added
  between two nodes has key \<open>0\<close> (networkx numbers parallel edges from 0).\<close>

definition wf_graph :: "graph \<Rightarrow> bool" where
  "wf_graph g \<longleftrightarrow>
     distinct (g_nodes g) \<and> distinct (map fst (g_edges g)) \<and>
     list_all (\<lambda>((u, v, k), d). u \<in> set (g_nodes g) \<and> v \<in> set (g_nodes g) \<and>
                 0 < e_weight d \<and> 0 < e_maxspeed d \<and> (u, v, 0) \<in> set (map fst (g_edges g)))
       (g_edges g)"

section \<open>Mutable attributes and globals\<close>

text \<open>The four edge styles (\<open>style_unvisited_edge\<close>, \<open>style_visited_edge\<close>,
  \<open>style_active_edge\<close>, \<open>style_path_edge\<close>); each sets the same three
  attributes, to the values \<open>edge_color\<close>, \<open>edge_alpha\<close> and \<open>edge_linewidth\<close>
  give below, so the style last applied determines them.\<close>

datatype edge_style = Unvisited | Visited | Active | OnPath

fun edge_color :: "edge_style \<Rightarrow> string" where
  "edge_color Unvisited = ''#d36206''"
| "edge_color Visited = ''#d36206''"
| "edge_color Active = ''#e8a900''"
| "edge_color OnPath = ''white''"

fun edge_alpha :: "edge_style \<Rightarrow> real" where
  "edge_alpha Unvisited = 0.2"
| "edge_alpha Visited = 1"
| "edge_alpha Active = 1"
| "edge_alpha OnPath = 1"

fun edge_linewidth :: "edge_style \<Rightarrow> real" where
  "edge_linewidth Unvisited = 0.5"
| "edge_linewidth Visited = 1"
| "edge_linewidth Active = 1"
| "edge_linewidth OnPath = 1"

text \<open>The global \<open>stage\<close> (\<open>"finding"\<close>, \<open>"reconstructing"\<close>, \<open>"found"\<close>).\<close>

datatype stage = Finding | Reconstructing | Found

text \<open>A saved frame: the edge styles and the highlighted nodes at the time of
  \<open>save_frame\<close>, the two things the frame draws, and the number in its file
  name \<open>frame_%05d.png\<close>.\<close>

type_synonym frame = "nat \<times> (edge \<Rightarrow> edge_style) \<times> (node \<Rightarrow> bool)"

record gstate =
  visited :: "node \<Rightarrow> bool"
  distance :: "node \<Rightarrow> dist"
  previous :: "node \<Rightarrow> node option"
  nsize :: "node \<Rightarrow> nat"
  highlight :: "node \<Rightarrow> bool"
  estyle :: "edge \<Rightarrow> edge_style"
  uses :: "string \<times> edge \<Rightarrow> nat"
  stage :: stage
  frame_count :: nat
  frames :: "frame list"

text \<open>The state before the first run: no node attributes set yet (every read
  of them comes after the reset of \<open>dijkstra\<close>), edges drawn with the
  defaults of the \<open>LineCollection\<close> (the unvisited style), \<open>stage = "finding"\<close>
  and \<open>frame_count = 0\<close> (lines 22--24, 80--83).\<close>

definition init_gstate :: gstate where
  "init_gstate = \<lparr>visited = (\<lambda>_. False), distance = (\<lambda>_. Inf), previous = (\<lambda>_. None),
                  nsize = (\<lambda>_. 0), highlight = (\<lambda>_. False), estyle = (\<lambda>_. Unvisited),
                  uses = (\<lambda>_. 0), stage = Finding, frame_count = 0, frames = []\<rparr>"

section \<open>Operations on the attributes\<close>

text \<open>\<open>style_*_edge(edge)\<close>.\<close>

definition style_edge :: "edge_style \<Rightarrow> edge \<Rightarrow> gstate \<Rightarrow> gstate" where
  "style_edge st e s = s\<lparr>estyle := (estyle s)(e := st)\<rparr>"

text \<open>\<open>for edge in es: style_*_edge(edge)\<close>.\<close>

definition style_edges :: "edge_style \<Rightarrow> edge list \<Rightarrow> gstate \<Rightarrow> gstate" where
  "style_edges st es s = fold (style_edge st) es s"

text \<open>\<open>style_start_end(node)\<close>: \<open>highlight = True\<close>, \<open>size = 25\<close>; the colour
  it sets is always \<open>"#FFFFFF"\<close> and is not recorded.\<close>

definition style_start_end :: "node \<Rightarrow> gstate \<Rightarrow> gstate" where
  "style_start_end n s = s\<lparr>highlight := (highlight s)(n := True), nsize := (nsize s)(n := 25)\<rparr>"

text \<open>The node loop at the start of \<open>dijkstra\<close> (lines 132--136). It leaves
  \<open>highlight\<close> alone.\<close>

definition reset_node :: "gstate \<Rightarrow> node \<Rightarrow> gstate" where
  "reset_node s n = s\<lparr>visited := (visited s)(n := False), distance := (distance s)(n := Inf),
                      previous := (previous s)(n := None), nsize := (nsize s)(n := 0)\<rparr>"

definition reset_nodes :: "graph \<Rightarrow> gstate \<Rightarrow> gstate" where
  "reset_nodes g s = fold (\<lambda>n s. reset_node s n) (g_nodes g) s"

section \<open>Lemmas\<close>

lemma style_edges_estyle [simp]:
  "estyle (style_edges st es s) = (\<lambda>e. if e \<in> set es then st else estyle s e)"
proof -
  have "estyle (fold (style_edge st) es s) = fold (\<lambda>x f. f(x := st)) es (estyle s)"
    by (induction es arbitrary: s) (simp_all add: style_edge_def)
  then show ?thesis by (simp add: style_edges_def fold_fun_upd_const)
qed

lemma style_edges_other [simp, frame_simps]:
  "visited (style_edges st es s) = visited s"
  "distance (style_edges st es s) = distance s"
  "previous (style_edges st es s) = previous s"
  "nsize (style_edges st es s) = nsize s"
  "highlight (style_edges st es s) = highlight s"
  "stage (style_edges st es s) = stage s"
  "frame_count (style_edges st es s) = frame_count s"
  "frames (style_edges st es s) = frames s"
  by (induction es arbitrary: s) (simp_all add: style_edges_def style_edge_def)

lemma style_edge_other [simp, frame_simps]:
  "visited (style_edge st e s) = visited s"
  "distance (style_edge st e s) = distance s"
  "previous (style_edge st e s) = previous s"
  "nsize (style_edge st e s) = nsize s"
  "highlight (style_edge st e s) = highlight s"
  "stage (style_edge st e s) = stage s"
  "frame_count (style_edge st e s) = frame_count s"
  "frames (style_edge st e s) = frames s"
  by (simp_all add: style_edge_def)

lemma fold_reset_node:
  "visited (fold (\<lambda>n s. reset_node s n) xs s) = (\<lambda>n. if n \<in> set xs then False else visited s n)
   \<and> distance (fold (\<lambda>n s. reset_node s n) xs s) = (\<lambda>n. if n \<in> set xs then Inf else distance s n)
   \<and> previous (fold (\<lambda>n s. reset_node s n) xs s) = (\<lambda>n. if n \<in> set xs then None else previous s n)
   \<and> nsize (fold (\<lambda>n s. reset_node s n) xs s) = (\<lambda>n. if n \<in> set xs then 0 else nsize s n)
   \<and> highlight (fold (\<lambda>n s. reset_node s n) xs s) = highlight s
   \<and> estyle (fold (\<lambda>n s. reset_node s n) xs s) = estyle s
   \<and> stage (fold (\<lambda>n s. reset_node s n) xs s) = stage s
   \<and> frame_count (fold (\<lambda>n s. reset_node s n) xs s) = frame_count s
   \<and> frames (fold (\<lambda>n s. reset_node s n) xs s) = frames s"
  by (induction xs arbitrary: s) (auto simp: reset_node_def fun_eq_iff)

lemma reset_nodes_fields [simp]:
  "visited (reset_nodes g s) = (\<lambda>n. if n \<in> set (g_nodes g) then False else visited s n)"
  "distance (reset_nodes g s) = (\<lambda>n. if n \<in> set (g_nodes g) then Inf else distance s n)"
  "previous (reset_nodes g s) = (\<lambda>n. if n \<in> set (g_nodes g) then None else previous s n)"
  "nsize (reset_nodes g s) = (\<lambda>n. if n \<in> set (g_nodes g) then 0 else nsize s n)"
  by (simp_all add: reset_nodes_def fold_reset_node)

lemma reset_nodes_other [simp, frame_simps]:
  "highlight (reset_nodes g s) = highlight s"
  "estyle (reset_nodes g s) = estyle s"
  "stage (reset_nodes g s) = stage s"
  "frame_count (reset_nodes g s) = frame_count s"
  "frames (reset_nodes g s) = frames s"
  by (simp_all add: reset_nodes_def fold_reset_node)

lemma style_start_end_fields [simp, frame_simps]:
  "visited (style_start_end n s) = visited s"
  "distance (style_start_end n s) = distance s"
  "previous (style_start_end n s) = previous s"
  "estyle (style_start_end n s) = estyle s"
  "stage (style_start_end n s) = stage s"
  "frame_count (style_start_end n s) = frame_count s"
  "frames (style_start_end n s) = frames s"
  by (simp_all add: style_start_end_def)

lemma wf_graph_edge:
  "wf_graph g \<Longrightarrow> ((u, v, k), d) \<in> set (g_edges g) \<Longrightarrow>
     u \<in> set (g_nodes g) \<and> v \<in> set (g_nodes g) \<and> 0 < e_weight d \<and> 0 < e_maxspeed d \<and>
     (u, v, 0) \<in> set (map fst (g_edges g))"
proof -
  assume "wf_graph g" "((u, v, k), d) \<in> set (g_edges g)"
  then have "(\<lambda>((u, v, k), d). u \<in> set (g_nodes g) \<and> v \<in> set (g_nodes g) \<and>
                 0 < e_weight d \<and> 0 < e_maxspeed d \<and> (u, v, 0) \<in> set (map fst (g_edges g)))
               ((u, v, k), d)"
    unfolding wf_graph_def list_all_iff by blast
  then show ?thesis by simp
qed

lemma edge_keys_nonempty_iff:
  "edge_keys g u v \<noteq> [] \<longleftrightarrow> (\<exists>k d. ((u, v, k), d) \<in> set (g_edges g))"
proof -
  have "edge_keys g u v \<noteq> [] \<longleftrightarrow> (\<exists>p \<in> set (g_edges g). fst (fst p) = u \<and> fst (snd (fst p)) = v)"
    by (simp add: edge_keys_def filter_empty_conv)
  also have "\<dots> \<longleftrightarrow> (\<exists>k d. ((u, v, k), d) \<in> set (g_edges g))"
    by force
  finally show ?thesis .
qed

lemma out_edges_set:
  "p \<in> set (out_edges g n) \<longleftrightarrow> p \<in> set (g_edges g) \<and> fst (fst p) = n"
  by (auto simp: out_edges_def)

lemma edge_data_SomeD: "edge_data g e = Some d \<Longrightarrow> (e, d) \<in> set (g_edges g)"
  by (simp add: edge_data_def map_of_SomeD)

lemma edge_data_key0:
  assumes "wf_graph g" "edge_keys g u v \<noteq> []"
  shows "\<exists>d. edge_data g (u, v, 0) = Some d"
proof -
  obtain k d where "((u, v, k), d) \<in> set (g_edges g)"
    using assms(2) by (auto simp: edge_keys_nonempty_iff)
  then have "(u, v, 0) \<in> fst ` set (g_edges g)"
    using wf_graph_edge [OF assms(1)] by auto
  then show ?thesis
    by (cases "map_of (g_edges g) (u, v, 0)") (auto simp: edge_data_def map_of_eq_None_iff)
qed

end
