(* ===== verification/Sink.thy ===== *)
theory Sink
  imports Graph
begin

text \<open>
  The Snapshot Sink of \<open>src/main.py\<close>: \<open>save_frame(step)\<close> (lines 97--124).
  The stage-dependent sampling (every 32nd search step, every 3rd
  reconstruction step, every call once found) and the file numbering by the
  global \<open>frame_count\<close> are modelled; the drawing itself is modelled by the
  frame's content, the edge styles and highlighted nodes it shows.
\<close>

fun frame_due :: "stage \<Rightarrow> nat \<Rightarrow> bool" where
  "frame_due Finding step = (step mod 32 = 0)"
| "frame_due Reconstructing step = (step mod 3 = 0)"
| "frame_due Found step = True"

definition save_frame :: "nat \<Rightarrow> gstate \<Rightarrow> gstate" where
  "save_frame step s =
     (if frame_due (stage s) step
      then s\<lparr>frames := frames s @ [(frame_count s, estyle s, highlight s)],
             frame_count := Suc (frame_count s)\<rparr>
      else s)"

text \<open>The frame files written so far are numbered \<open>0, 1, \<dots>\<close> without gaps, and
  \<open>frame_count\<close> is the next number: no file is written twice.\<close>

definition frames_numbered :: "gstate \<Rightarrow> bool" where
  "frames_numbered s \<longleftrightarrow> map fst (frames s) = [0..<frame_count s]"

lemma save_frame_fields [simp, frame_simps]:
  "visited (save_frame step s) = visited s"
  "distance (save_frame step s) = distance s"
  "previous (save_frame step s) = previous s"
  "nsize (save_frame step s) = nsize s"
  "highlight (save_frame step s) = highlight s"
  "estyle (save_frame step s) = estyle s"
  "stage (save_frame step s) = stage s"
  by (simp_all add: save_frame_def)

lemma save_frame_frames:
  "frames (save_frame step s) =
     (if frame_due (stage s) step then frames s @ [(frame_count s, estyle s, highlight s)] else frames s)"
  "frame_count (save_frame step s) =
     (if frame_due (stage s) step then Suc (frame_count s) else frame_count s)"
  by (simp_all add: save_frame_def)

lemma save_frame_numbered [intro]:
  "frames_numbered s \<Longrightarrow> frames_numbered (save_frame step s)"
  by (simp add: frames_numbered_def save_frame_def)

lemma funpow_save_frame_fields [simp, frame_simps]:
  "visited ((save_frame step ^^ k) s) = visited s"
  "distance ((save_frame step ^^ k) s) = distance s"
  "previous ((save_frame step ^^ k) s) = previous s"
  "estyle ((save_frame step ^^ k) s) = estyle s"
  "highlight ((save_frame step ^^ k) s) = highlight s"
  "stage ((save_frame step ^^ k) s) = stage s"
  by (induction k) simp_all

lemma funpow_save_frame_numbered [intro]:
  "frames_numbered s \<Longrightarrow> frames_numbered ((save_frame step ^^ k) s)"
  by (induction k) auto

lemma frames_numbered_style_edges [intro]:
  "frames_numbered s \<Longrightarrow> frames_numbered (style_edges st es s)"
  by (simp add: frames_numbered_def)

end
