(* ===== verification/Frontier.thy ===== *)
theory Frontier
  imports Prelude
begin

text \<open>
  The Priority Frontier of \<open>src/main.py\<close>: the list \<open>pq\<close> used with
  \<open>heapq.heappush\<close> and \<open>heapq.heappop\<close> (lines 145, 149--150, 174). Its entries
  are the tuples \<open>(distance, node)\<close>, compared as Python compares tuples:
  by distance, then by node id. The frontier is modelled by a list kept sorted;
  \<open>heappop\<close> returns the least entry, as \<open>heapq\<close> does, so every run of the
  search makes the same choices on this model as on the binary heap. The
  abstract specification is a multiset of entries with removal of its minimum.
\<close>

type_synonym entry = "dist \<times> node"
type_synonym frontier = "entry list"

definition heappush :: "entry \<Rightarrow> frontier \<Rightarrow> frontier" where
  "heappush x h = insort x h"

fun heappop :: "frontier \<Rightarrow> (entry \<times> frontier) option" where
  "heappop [] = None"
| "heappop (x # h) = Some (x, h)"

text \<open>The representation invariant.\<close>

abbreviation heap_inv :: "frontier \<Rightarrow> bool" where
  "heap_inv h \<equiv> sorted h"

lemma heappush_mset [simp]: "mset (heappush x h) = add_mset x (mset h)"
  by (simp add: heappush_def)

lemma heappush_set [simp]: "set (heappush x h) = insert x (set h)"
  by (simp add: heappush_def set_insort_key)

lemma heappush_inv [intro]: "heap_inv h \<Longrightarrow> heap_inv (heappush x h)"
  by (simp add: heappush_def sorted_insort)

lemma heappush_length [simp]: "length (heappush x h) = Suc (length h)"
  by (simp add: heappush_def)

lemma heappop_None_iff [simp]: "heappop h = None \<longleftrightarrow> h = []"
  by (cases h) auto

lemma heappop_SomeD:
  "heappop h = Some (x, h') \<Longrightarrow> h = x # h'"
  by (cases h) auto

lemma sorted_hd_Min:
  assumes "sorted (x # h)"
  shows "x = Min_mset (mset (x # h))"
proof -
  have "Min (insert x (set h)) = x" using assms by (intro Min_insert2) auto
  then show ?thesis by simp
qed

text \<open>The frontier refines the multiset priority queue: on a sorted list,
  \<open>heappush\<close> adds the entry and keeps the list sorted, \<open>heappop\<close> fails only
  on the empty frontier and otherwise returns its least entry (least distance,
  ties broken by the smaller node id) and removes exactly that entry.\<close>

lemma frontier_refines:
  assumes "heap_inv h"
  shows "heap_inv (heappush x h) \<and> mset (heappush x h) = add_mset x (mset h) \<and>
         (heappop h = None \<longleftrightarrow> mset h = {#}) \<and>
         (\<forall>y h'. heappop h = Some (y, h') \<longrightarrow>
            y = Min_mset (mset h) \<and> mset h' = mset h - {#y#} \<and> heap_inv h')"
proof -
  have pop: "y = Min_mset (mset h) \<and> mset h' = mset h - {#y#} \<and> heap_inv h'"
    if "heappop h = Some (y, h')" for y h'
  proof -
    from that have h: "h = y # h'" by (rule heappop_SomeD)
    have "y = Min_mset (mset h)" using assms h sorted_hd_Min by blast
    moreover have "mset h' = mset h - {#y#}" using h by simp
    moreover have "heap_inv h'" using assms h by simp
    ultimately show ?thesis by blast
  qed
  with assms show ?thesis by auto
qed

end
