(* ===== verification/Search.thy ===== *)
theory Search
  imports Sink Frontier
begin

text \<open>
  The Search Engine of \<open>src/main.py\<close>: \<open>dijkstra(orig, dest, isAnimate)\<close>
  (lines 127--184). \<open>relax_edges\<close> is the inner \<open>for\<close> loop over the out-edges of
  the popped node (lines 167--178), \<open>dijkstra_loop\<close> the \<open>while pq\<close> loop
  (lines 149--184) and \<open>dijkstra\<close> the set-up before it (lines 128--147). A call
  returns the value the Python function returns (the step counter), or the
  exception it raises, together with the attribute state it leaves behind,
  also when it raises.
\<close>

section \<open>Operations\<close>

text \<open>One iteration of \<open>for edge in G.out_edges(node, keys=True)\<close>: style the
  edge visited; if \<open>distance[node] + weight\<close> improves the neighbour, record the
  new distance and predecessor, push the neighbour and style its out-edges
  active.\<close>

fun relax_edges ::
  "graph \<Rightarrow> node \<Rightarrow> (edge \<times> edata) list \<Rightarrow> frontier \<Rightarrow> gstate \<Rightarrow> frontier \<times> gstate" where
  "relax_edges g node [] pq s = (pq, s)"
| "relax_edges g node ((e, d) # es) pq s =
     (let s1 = style_edge Visited e s;
          nb = fst (snd e);
          nd = dist_add (distance s1 node) (e_weight d)
      in if nd < distance s1 nb
         then relax_edges g node es (heappush (nd, nb) pq)
                (style_edges Active (map fst (out_edges g nb))
                   (s1\<lparr>distance := (distance s1)(nb := nd),
                       previous := (previous s1)(nb := Some node)\<rparr>))
         else relax_edges g node es pq s1)"

text \<open>The frames saved when the destination is popped (lines 153--158).\<close>

definition found_frames :: "bool \<Rightarrow> nat \<Rightarrow> gstate \<Rightarrow> gstate" where
  "found_frames anim step s = (if anim then (save_frame step ^^ 22) s else save_frame step s)"

lemma relax_edges_visited [simp, frame_simps]:
  "visited (snd (relax_edges g node es pq s)) = visited s"
  by (induction g node es pq s rule: relax_edges.induct) (simp add: Let_def)+

lemma relax_edges_visited_eq:
  "relax_edges g node es pq s = (pq', s') \<Longrightarrow> visited s' = visited s"
  using relax_edges_visited [of g node es pq s] by simp

text \<open>The \<open>while pq\<close> loop. Termination: a pop either finds the destination,
  raises, discards a stale entry (the frontier shrinks and nothing else
  changes), or marks one more node of the graph visited.\<close>

function dijkstra_loop ::
  "graph \<Rightarrow> node \<Rightarrow> bool \<Rightarrow> frontier \<Rightarrow> nat \<Rightarrow> gstate \<Rightarrow> (error + nat) \<times> gstate" where
  "dijkstra_loop g dest anim pq step s =
     (case heappop pq of
        None \<Rightarrow> (Inr step, s)
      | Some ((_, node), pq') \<Rightarrow>
          if node = dest then (Inr step, found_frames anim step (s\<lparr>stage := Found\<rparr>))
          else if node \<notin> set (g_nodes g) then (Inl KeyError, s)
          else if visited s node then dijkstra_loop g dest anim pq' step s
          else (case relax_edges g node (out_edges g node) pq'
                       (s\<lparr>visited := (visited s)(node := True)\<rparr>) of
                  (pq'', s') \<Rightarrow>
                    dijkstra_loop g dest anim pq'' (Suc step)
                      (if anim then save_frame step s' else s')))"
  by pat_completeness auto
termination
proof (relation "measures [\<lambda>(g, dest, anim, pq, step, s). card {n \<in> set (g_nodes g). \<not> visited s n},
                           \<lambda>(g, dest, anim, pq, step, s). length pq]", goal_cases)
  case 1
  then show ?case by simp
next
  case 2
  then show ?case by (auto dest!: heappop_SomeD)
next
  case (3 g dest anim pq step s p e pq' d node pq'' s')
  then have "visited s' = (visited s)(node := True)"
    by (metis relax_edges_visited_eq gstate.select_convs(1) gstate.surjective gstate.update_convs(1))
  then show ?case
    using 3 card_unmarked_decreases [of "set (g_nodes g)" node "visited s"] by simp
qed

text \<open>The set-up: \<open>stage = "finding"\<close>, reset every node, style every edge
  unvisited, then \<open>G.nodes[orig]["distance"] = 0\<close> and the two
  \<open>style_start_end\<close> calls, each of which raises \<open>KeyError\<close> for a node that is not
  in the graph, after the resets have been done.\<close>

definition dijkstra :: "graph \<Rightarrow> node \<Rightarrow> node \<Rightarrow> bool \<Rightarrow> gstate \<Rightarrow> (error + nat) \<times> gstate" where
  "dijkstra g orig dest anim s =
     (let s1 = style_edges Unvisited (map fst (g_edges g)) (reset_nodes g (s\<lparr>stage := Finding\<rparr>))
      in if orig \<notin> set (g_nodes g) then (Inl KeyError, s1)
         else let s2 = style_start_end orig (s1\<lparr>distance := (distance s1)(orig := Fin 0)\<rparr>)
              in if dest \<notin> set (g_nodes g) then (Inl KeyError, s2)
                 else dijkstra_loop g dest anim [(Fin 0, orig)] 0 (style_start_end dest s2))"

declare dijkstra_loop.simps [simp del]

section \<open>The loop rule\<close>

lemma relax_edges_frame [simp, frame_simps]:
  "stage (snd (relax_edges g node es pq s)) = stage s"
  "frame_count (snd (relax_edges g node es pq s)) = frame_count s"
  "frames (snd (relax_edges g node es pq s)) = frames s"
  "highlight (snd (relax_edges g node es pq s)) = highlight s"
  by (induction g node es pq s rule: relax_edges.induct) (simp_all add: Let_def)

lemma found_frames_fields [simp, frame_simps]:
  "visited (found_frames anim step s) = visited s"
  "distance (found_frames anim step s) = distance s"
  "previous (found_frames anim step s) = previous s"
  "estyle (found_frames anim step s) = estyle s"
  "stage (found_frames anim step s) = stage s"
  by (simp_all add: found_frames_def)

text \<open>A Hoare-style rule for the \<open>while pq\<close> loop: a property of
  \<open>(pq, step, state)\<close> that survives a stale pop and a finalising iteration
  holds at every exit, where the exit condition is then established.\<close>

lemma dijkstra_loop_rule:
  assumes "I pq step s"
    and stale: "\<And>pq step s x pq'. I pq step s \<Longrightarrow> heappop pq = Some (x, pq') \<Longrightarrow>
                   snd x \<noteq> dest \<Longrightarrow> visited s (snd x) \<Longrightarrow> I pq' step s"
    and fresh: "\<And>pq step s d node pq' pq'' s'. I pq step s \<Longrightarrow> heappop pq = Some ((d, node), pq') \<Longrightarrow>
                   node \<noteq> dest \<Longrightarrow> node \<in> set (g_nodes g) \<Longrightarrow> \<not> visited s node \<Longrightarrow>
                   relax_edges g node (out_edges g node) pq' (s\<lparr>visited := (visited s)(node := True)\<rparr>)
                     = (pq'', s') \<Longrightarrow>
                   I pq'' (Suc step) (if anim then save_frame step s' else s')"
    and empty: "\<And>step s. I [] step s \<Longrightarrow> R (Inr step) s"
    and found: "\<And>pq step s d pq'. I pq step s \<Longrightarrow> heappop pq = Some ((d, dest), pq') \<Longrightarrow>
                   R (Inr step) (found_frames anim step (s\<lparr>stage := Found\<rparr>))"
    and unknown: "\<And>pq step s d node pq'. I pq step s \<Longrightarrow> heappop pq = Some ((d, node), pq') \<Longrightarrow>
                   node \<noteq> dest \<Longrightarrow> node \<notin> set (g_nodes g) \<Longrightarrow> R (Inl KeyError) s"
  shows "R (fst (dijkstra_loop g dest anim pq step s)) (snd (dijkstra_loop g dest anim pq step s))"
proof -
  have "g' = g \<Longrightarrow> dest' = dest \<Longrightarrow> anim' = anim \<Longrightarrow> I pq step s \<Longrightarrow>
        R (fst (dijkstra_loop g' dest' anim' pq step s)) (snd (dijkstra_loop g' dest' anim' pq step s))"
    for g' dest' anim'
  proof (induction g' dest' anim' pq step s rule: dijkstra_loop.induct)
    case (1 g' dest' anim' pq step s)
    then have eqs [simp]: "g' = g" "dest' = dest" "anim' = anim" and inv: "I pq step s"
      by simp_all
    note unfold = dijkstra_loop.simps [of g' dest' anim' pq step s]
    show ?case
    proof (cases "heappop pq")
      case None
      with inv show ?thesis unfolding unfold by (simp add: empty)
    next
      case (Some p)
      obtain d node pq' where p: "p = ((d, node), pq')" by (metis prod.exhaust)
      show ?thesis
      proof (cases "node = dest")
        case True
        with Some p inv show ?thesis unfolding unfold by (simp add: found)
      next
        case ndest: False
        show ?thesis
        proof (cases "node \<in> set (g_nodes g)")
          case False
          with Some p ndest inv show ?thesis unfolding unfold by (simp add: unknown)
        next
          case nodes: True
          show ?thesis
          proof (cases "visited s node")
            case True
            have I': "I pq' step s" using stale [OF inv] Some p ndest True by simp
            have eq: "dijkstra_loop g dest anim pq step s = dijkstra_loop g dest anim pq' step s"
              using Some p ndest nodes True unfolding dijkstra_loop.simps [of g dest anim pq step s]
              by simp
            have "R (fst (dijkstra_loop g' dest' anim' pq' step s)) (snd (dijkstra_loop g' dest' anim' pq' step s))"
              by (rule "1.IH"(1) [of p "(d, node)" pq' d node]) (use Some p ndest nodes True I' in simp_all)
            with eq show ?thesis by simp
          next
            case False
            obtain pq'' s' where r: "relax_edges g node (out_edges g node) pq'
                                       (s\<lparr>visited := (visited s)(node := True)\<rparr>) = (pq'', s')"
              by (metis prod.exhaust)
            let ?s = "if anim then save_frame step s' else s'"
            have I': "I pq'' (Suc step) ?s" using fresh [OF inv] Some p ndest nodes False r by simp
            have eq: "dijkstra_loop g dest anim pq step s = dijkstra_loop g dest anim pq'' (Suc step) ?s"
              using Some p ndest nodes False r unfolding dijkstra_loop.simps [of g dest anim pq step s]
              by simp
            have "R (fst (dijkstra_loop g' dest' anim' pq'' (Suc step) (if anim' then save_frame step s' else s')))
                    (snd (dijkstra_loop g' dest' anim' pq'' (Suc step) (if anim' then save_frame step s' else s')))"
              by (rule "1.IH"(2) [of p "(d, node)" pq' d node pq'' s'])
                 (use Some p ndest nodes False r I' in simp_all)
            with eq show ?thesis by simp
          qed
        qed
      qed
    qed
  qed
  with assms(1) show ?thesis by blast
qed

section \<open>The step counter counts finalised nodes\<close>

lemma dijkstra_loop_steps:
  assumes "step = card {n \<in> set (g_nodes g). visited s n}"
  shows "fst (dijkstra_loop g dest anim pq step s) = Inr k \<Longrightarrow>
         k = card {n \<in> set (g_nodes g). visited (snd (dijkstra_loop g dest anim pq step s)) n}"
proof (rule dijkstra_loop_rule [where I = "\<lambda>pq step s. step = card {n \<in> set (g_nodes g). visited s n}"
                                 and R = "\<lambda>r s'. r = Inr k \<longrightarrow> k = card {n \<in> set (g_nodes g). visited s' n}",
                               rule_format])
  fix pq step s d node pq' pq'' s'
  assume I: "step = card {n \<in> set (g_nodes g). visited s n}" and "node \<in> set (g_nodes g)"
    "\<not> visited s node"
    and r: "relax_edges g node (out_edges g node) pq' (s\<lparr>visited := (visited s)(node := True)\<rparr>) = (pq'', s')"
  moreover from r have "visited s' = (visited s)(node := True)"
    by (auto dest: relax_edges_visited_eq)
  ultimately show "Suc step = card {n \<in> set (g_nodes g). visited (if anim then save_frame step s' else s') n}"
    using card_marked_increases [of "set (g_nodes g)" node "visited s"] by simp
qed (use assms in simp_all)

lemma reset_card_visited [simp]:
  "card {n \<in> set (g_nodes g). visited (reset_nodes g s) n} = 0"
  by simp

section \<open>Predecessor links\<close>

text \<open>A predecessor link \<open>previous[v] = u\<close> of a node of the graph points to a
  node of the graph joined to \<open>v\<close> by an edge, with a smaller distance. This is
  what \<open>reconstruct_path\<close> relies on to walk back from the destination.\<close>

definition pred_ok :: "graph \<Rightarrow> (node \<Rightarrow> node option) \<Rightarrow> (node \<Rightarrow> dist) \<Rightarrow> node \<Rightarrow> bool" where
  "pred_ok g prev dst v =
     (case prev v of
        None \<Rightarrow> True
      | Some u \<Rightarrow> u \<in> set (g_nodes g) \<and> edge_keys g u v \<noteq> [] \<and> dst u < dst v)"

definition pred_inv :: "graph \<Rightarrow> (node \<Rightarrow> node option) \<Rightarrow> (node \<Rightarrow> dist) \<Rightarrow> bool" where
  "pred_inv g prev dst \<longleftrightarrow> list_all (pred_ok g prev dst) (g_nodes g)"

lemma pred_invD:
  "pred_inv g prev dst \<Longrightarrow> v \<in> set (g_nodes g) \<Longrightarrow> prev v = Some u \<Longrightarrow>
     u \<in> set (g_nodes g) \<and> edge_keys g u v \<noteq> [] \<and> dst u < dst v"
  by (auto simp: pred_inv_def pred_ok_def list_all_iff)

lemma pred_invI:
  "(\<And>v u. v \<in> set (g_nodes g) \<Longrightarrow> prev v = Some u \<Longrightarrow>
      u \<in> set (g_nodes g) \<and> edge_keys g u v \<noteq> [] \<and> dst u < dst v) \<Longrightarrow> pred_inv g prev dst"
  by (auto simp: pred_inv_def pred_ok_def list_all_iff split: option.splits)

lemma pred_inv_update:
  assumes inv: "pred_inv g prev dst" and u: "u \<in> set (g_nodes g)" "edge_keys g u v \<noteq> []"
    and lt: "dst u < nd" "nd < dst v"
  shows "pred_inv g (prev(v := Some u)) (dst(v := nd))"
proof (rule pred_invI)
  fix x y
  assume x: "x \<in> set (g_nodes g)" and y: "(prev(v := Some u)) x = Some y"
  have "u \<noteq> v" using lt by auto
  show "y \<in> set (g_nodes g) \<and> edge_keys g y x \<noteq> [] \<and> (dst(v := nd)) y < (dst(v := nd)) x"
  proof (cases "x = v")
    case True
    with y u lt \<open>u \<noteq> v\<close> show ?thesis by auto
  next
    case False
    with y have "prev x = Some y" by simp
    with inv x have old: "y \<in> set (g_nodes g) \<and> edge_keys g y x \<noteq> [] \<and> dst y < dst x"
      by (rule pred_invD)
    show ?thesis
      using old False lt by (cases "y = v") auto
  qed
qed

lemma pred_inv_reset [simp]:
  "pred_inv g (\<lambda>n. if n \<in> set (g_nodes g) then None else prev n) dst"
  by (rule pred_invI) simp

lemma relax_edges_pred_inv:
  assumes "wf_graph g" "node \<in> set (g_nodes g)"
  shows "set es \<subseteq> set (out_edges g node) \<Longrightarrow> pred_inv g (previous s) (distance s) \<Longrightarrow>
         pred_inv g (previous (snd (relax_edges g node es pq s))) (distance (snd (relax_edges g node es pq s)))"
proof (induction es arbitrary: pq s)
  case Nil
  then show ?case by simp
next
  case (Cons p es)
  obtain u v k d where p: "p = ((u, v, k), d)" by (metis prod.exhaust)
  have mem: "((u, v, k), d) \<in> set (g_edges g)" and src: "u = node"
    using Cons.prems(1) p by (auto simp: out_edges_set)
  have es: "set es \<subseteq> set (out_edges g node)" using Cons.prems(1) by simp
  let ?nd = "dist_add (distance s node) (e_weight d)"
  show ?case
  proof (cases "?nd < distance s v")
    case True
    have "0 < e_weight d" using wf_graph_edge [OF assms(1) mem] by simp
    then have "distance s node < ?nd" using True by (rule dist_add_less)
    moreover have "edge_keys g node v \<noteq> []"
      using mem src by (auto simp: edge_keys_nonempty_iff)
    ultimately have "pred_inv g ((previous s)(v := Some node)) ((distance s)(v := ?nd))"
      using pred_inv_update [OF Cons.prems(2) assms(2)] True by simp
    moreover
    let ?s2 = "style_edges Active (map fst (out_edges g v))
                 (style_edge Visited (u, v, k) s\<lparr>distance := (distance s)(v := ?nd),
                                                  previous := (previous s)(v := Some node)\<rparr>)"
    have "previous ?s2 = (previous s)(v := Some node)" "distance ?s2 = (distance s)(v := ?nd)"
      by simp_all
    ultimately have "pred_inv g (previous ?s2) (distance ?s2)" by simp
    from Cons.IH [OF es this, of "heappush (?nd, v) pq"] show ?thesis
      using p True by (simp add: Let_def)
  next
    case False
    then show ?thesis
      using Cons.IH [OF es] Cons.prems(2) p by (simp add: Let_def)
  qed
qed

lemma dijkstra_loop_pred_inv:
  assumes "wf_graph g" "pred_inv g (previous s) (distance s)"
  shows "pred_inv g (previous (snd (dijkstra_loop g dest anim pq step s)))
                    (distance (snd (dijkstra_loop g dest anim pq step s)))"
proof (rule dijkstra_loop_rule [where I = "\<lambda>pq step s. pred_inv g (previous s) (distance s)"
                                 and R = "\<lambda>r s'. pred_inv g (previous s') (distance s')"])
  fix pq step s d node pq' pq'' s'
  assume "pred_inv g (previous s) (distance s)" "node \<in> set (g_nodes g)"
    and r: "relax_edges g node (out_edges g node) pq' (s\<lparr>visited := (visited s)(node := True)\<rparr>) = (pq'', s')"
  then have "pred_inv g (previous s') (distance s')"
    using relax_edges_pred_inv [OF assms(1), of node "out_edges g node" "s\<lparr>visited := (visited s)(node := True)\<rparr>" pq']
    by simp
  then show "pred_inv g (previous (if anim then save_frame step s' else s'))
                        (distance (if anim then save_frame step s' else s'))"
    by simp
qed (use assms(2) in simp_all)

section \<open>Properties of a whole run\<close>

text \<open>The state in which the \<open>while\<close> loop starts.\<close>

abbreviation start_state :: "graph \<Rightarrow> node \<Rightarrow> node \<Rightarrow> gstate \<Rightarrow> gstate" where
  "start_state g orig dest s \<equiv>
     (let s1 = style_edges Unvisited (map fst (g_edges g)) (reset_nodes g (s\<lparr>stage := Finding\<rparr>))
      in style_start_end dest (style_start_end orig (s1\<lparr>distance := (distance s1)(orig := Fin 0)\<rparr>)))"

lemma dijkstra_cases:
  "dijkstra g orig dest anim s =
     (if orig \<notin> set (g_nodes g) \<or> dest \<notin> set (g_nodes g)
      then (Inl KeyError, snd (dijkstra g orig dest anim s))
      else dijkstra_loop g dest anim [(Fin 0, orig)] 0 (start_state g orig dest s))"
  by (simp add: dijkstra_def Let_def)

lemma start_state_fields [simp]:
  "visited (start_state g orig dest s) = (\<lambda>n. if n \<in> set (g_nodes g) then False else visited s n)"
  "previous (start_state g orig dest s) = (\<lambda>n. if n \<in> set (g_nodes g) then None else previous s n)"
  by (simp_all add: Let_def fun_eq_iff)

text \<open>A run that returns a step count started from two nodes of the graph and is
  the run of the loop from the start state.\<close>

lemma dijkstra_Inr_loop:
  assumes "dijkstra g orig dest anim s = (Inr k, s')"
  shows "orig \<in> set (g_nodes g) \<and> dest \<in> set (g_nodes g) \<and>
         dijkstra_loop g dest anim [(Fin 0, orig)] 0 (start_state g orig dest s) = (Inr k, s')"
proof -
  have nodes: "orig \<in> set (g_nodes g)" "dest \<in> set (g_nodes g)"
    using assms dijkstra_cases [of g orig dest anim s] by (metis Inr_Inl_False fst_conv)+
  with assms dijkstra_cases [of g orig dest anim s] show ?thesis by simp
qed

text \<open>The predecessor links after a run, whether it returns or raises.\<close>

lemma pred_inv_after_dijkstra:
  assumes "wf_graph g"
  shows "pred_inv g (previous (snd (dijkstra g orig dest anim s))) (distance (snd (dijkstra g orig dest anim s)))"
proof (cases "orig \<in> set (g_nodes g) \<and> dest \<in> set (g_nodes g)")
  case True
  have "pred_inv g (previous (start_state g orig dest s)) (distance (start_state g orig dest s))"
    by simp
  from dijkstra_loop_pred_inv [OF assms this, of dest anim "[(Fin 0, orig)]" 0] True
  show ?thesis by (simp add: dijkstra_def Let_def)
next
  case False
  then show ?thesis by (auto simp: dijkstra_def Let_def)
qed

text \<open>C2. Each node is finalised at most once: the step count that \<open>dijkstra\<close>
  returns is exactly the number of nodes it marked visited, hence at most the
  number of nodes of the graph.\<close>

theorem dijkstra_step_count:
  assumes "dijkstra g orig dest anim s = (Inr k, s')"
  shows "k = card {n \<in> set (g_nodes g). visited s' n} \<and> k \<le> length (g_nodes g)"
proof -
  have run: "dijkstra_loop g dest anim [(Fin 0, orig)] 0 (start_state g orig dest s) = (Inr k, s')"
    using dijkstra_Inr_loop [OF assms] by simp
  have "0 = card {n \<in> set (g_nodes g). visited (start_state g orig dest s) n}"
    by simp
  from dijkstra_loop_steps [OF this, of dest anim "[(Fin 0, orig)]" k] run
  have k: "k = card {n \<in> set (g_nodes g). visited s' n}" by simp
  also have "\<dots> \<le> card (set (g_nodes g))" by (rule card_mono) auto
  also have "\<dots> \<le> length (g_nodes g)" by (rule card_length)
  finally show ?thesis using k by simp
qed

text \<open>C3. On a well-formed graph, every state \<open>dijkstra\<close> leaves behind, whether it
  returns or raises, has predecessor links that point along an edge of the graph
  to a node of strictly smaller distance.\<close>

theorem dijkstra_pred_inv:
  assumes "wf_graph g"
  shows "pred_inv g (previous (snd (dijkstra g orig dest anim s))) (distance (snd (dijkstra g orig dest anim s)))"
  using pred_inv_after_dijkstra [OF assms] .

end
