(* ===== verification/Reconstruct.thy ===== *)
theory Reconstruct
  imports Search
begin

text \<open>
  The Path Reconstructor of \<open>src/main.py\<close>: \<open>reconstruct_path(orig, dest,
  isAnimate, algorithm)\<close> (lines 187--225). \<open>walk\<close> is its \<open>while curr != orig\<close>
  loop (lines 199--214); the loop follows \<open>previous\<close> links and need not end
  on an arbitrary state (a cycle of links), so it is a
  \<open>partial_function (option)\<close> whose \<open>None\<close> is "does not return".
  \<open>route_report\<close> is the computation and printing of the metrics and the last
  frame (lines 216--225). The printed values are the result; the early
  \<open>print("Unnaccessible goal"); return\<close> is \<open>Unaccessible_goal\<close>.
\<close>

section \<open>Operations\<close>

text \<open>What the function prints: the unreachable message, or distance (km),
  average speed and total time (minutes).\<close>

datatype recon_out = Unaccessible_goal | Route real real real

datatype walk_result = Walk_error error | Walk_unaccessible | Walk_reached real "real list" nat

text \<open>One iteration of \<open>for key in G[prev][cur]\<close>: style the edge as path
  and, when an algorithm name is given (a non-empty string is truthy), count
  the use in the edge attribute \<open>{algorithm}_uses\<close>.\<close>

definition mark_path_edge :: "string option \<Rightarrow> edge \<Rightarrow> gstate \<Rightarrow> gstate" where
  "mark_path_edge alg e s =
     (let s1 = style_edge OnPath e s
      in case alg of
           None \<Rightarrow> s1
         | Some a \<Rightarrow> if a = [] then s1 else s1\<lparr>uses := (uses s1)((a, e) := Suc (uses s1 (a, e)))\<rparr>)"

definition mark_path_edges :: "graph \<Rightarrow> string option \<Rightarrow> node \<Rightarrow> node \<Rightarrow> gstate \<Rightarrow> gstate" where
  "mark_path_edges g alg prev cur s = fold (mark_path_edge alg) (map (\<lambda>k. (prev, cur, k)) (edge_keys g prev cur)) s"

partial_function (option) walk ::
  "graph \<Rightarrow> node \<Rightarrow> bool \<Rightarrow> string option \<Rightarrow> node \<Rightarrow> real \<Rightarrow> real list \<Rightarrow> nat \<Rightarrow> gstate
     \<Rightarrow> (walk_result \<times> gstate) option" where
  "walk g orig anim alg cur len_sum speeds step s =
     (if cur = orig then Some (Walk_reached len_sum speeds step, s)
      else if cur \<notin> set (g_nodes g) then Some (Walk_error KeyError, s)
      else case previous s cur of
        None \<Rightarrow> Some (Walk_unaccessible, s)
      | Some prev \<Rightarrow>
          if edge_keys g prev cur = [] then Some (Walk_error KeyError, s)
          else case edge_data g (prev, cur, 0) of
            None \<Rightarrow> Some (Walk_error KeyError, mark_path_edges g alg prev cur s)
          | Some d \<Rightarrow>
              walk g orig anim alg prev (len_sum + e_length d) (speeds @ [e_maxspeed d]) (Suc step)
                (if anim then save_frame step (mark_path_edges g alg prev cur s)
                 else mark_path_edges g alg prev cur s))"

declare walk.simps [code]

text \<open>Lines 216--225: \<open>sum(speeds)/len(speeds)\<close> raises \<open>ZeroDivisionError\<close> on an
  empty list, and so does the time when the average is \<open>0\<close>.\<close>

definition route_report :: "bool \<Rightarrow> real \<Rightarrow> real list \<Rightarrow> nat \<Rightarrow> gstate \<Rightarrow> (error + recon_out) \<times> gstate" where
  "route_report anim len_sum speeds step s =
     (let km = len_sum / 1000
      in if speeds = [] then (Inl ZeroDivisionError, s)
         else let avg = sum_list speeds / real (length speeds)
              in if avg = 0 then (Inl ZeroDivisionError, s)
                 else (Inr (Route km avg (km / avg * 60)),
                       if anim then s else save_frame step (s\<lparr>stage := Found\<rparr>)))"

definition reconstruct_path ::
  "graph \<Rightarrow> node \<Rightarrow> node \<Rightarrow> bool \<Rightarrow> string option \<Rightarrow> gstate \<Rightarrow> ((error + recon_out) \<times> gstate) option" where
  "reconstruct_path g orig dest anim alg s =
     (case walk g orig anim alg dest 0 [] 0
             (style_edges Unvisited (map fst (g_edges g)) (s\<lparr>stage := Reconstructing\<rparr>)) of
        None \<Rightarrow> None
      | Some (Walk_error e, s') \<Rightarrow> Some (Inl e, s')
      | Some (Walk_unaccessible, s') \<Rightarrow> Some (Inr Unaccessible_goal, s')
      | Some (Walk_reached len_sum speeds step, s') \<Rightarrow> Some (route_report anim len_sum speeds step s'))"

text \<open>The state in which the walk starts.\<close>

abbreviation recon_start :: "graph \<Rightarrow> gstate \<Rightarrow> gstate" where
  "recon_start g s \<equiv> style_edges Unvisited (map fst (g_edges g)) (s\<lparr>stage := Reconstructing\<rparr>)"

section \<open>Lemmas\<close>

lemma mark_path_edges_fields [simp, frame_simps]:
  "visited (mark_path_edges g alg u v s) = visited s"
  "distance (mark_path_edges g alg u v s) = distance s"
  "previous (mark_path_edges g alg u v s) = previous s"
  "stage (mark_path_edges g alg u v s) = stage s"
proof -
  have "visited (fold (mark_path_edge alg) es s) = visited s \<and>
        distance (fold (mark_path_edge alg) es s) = distance s \<and>
        previous (fold (mark_path_edge alg) es s) = previous s \<and>
        stage (fold (mark_path_edge alg) es s) = stage s" for es
    by (induction es arbitrary: s) (simp_all add: mark_path_edge_def Let_def split: option.splits)
  then show "visited (mark_path_edges g alg u v s) = visited s"
    "distance (mark_path_edges g alg u v s) = distance s"
    "previous (mark_path_edges g alg u v s) = previous s"
    "stage (mark_path_edges g alg u v s) = stage s"
    by (simp_all add: mark_path_edges_def)
qed

lemma walk_step_fields [simp]:
  "previous (if anim then save_frame step (mark_path_edges g alg u v s) else mark_path_edges g alg u v s)
     = previous s"
  "distance (if anim then save_frame step (mark_path_edges g alg u v s) else mark_path_edges g alg u v s)
     = distance s"
  by simp_all

section \<open>The walk returns\<close>

text \<open>Under the predecessor invariant of the search each link leads to a node of
  smaller distance, so the walk ends; without it a cycle of links would make
  it loop.\<close>

text \<open>A total-correctness rule for the walk: a property of the loop variables
  kept by each iteration holds at the exit, and the walk returns.\<close>

lemma walk_rule:
  assumes inv: "pred_inv g (previous s) (distance s)" "I cur len_sum speeds step s"
    and step: "\<And>cur len_sum speeds step s prev d.
       pred_inv g (previous s) (distance s) \<Longrightarrow> I cur len_sum speeds step s \<Longrightarrow> cur \<noteq> orig \<Longrightarrow>
       cur \<in> set (g_nodes g) \<Longrightarrow> previous s cur = Some prev \<Longrightarrow> edge_keys g prev cur \<noteq> [] \<Longrightarrow>
       edge_data g (prev, cur, 0) = Some d \<Longrightarrow>
       I prev (len_sum + e_length d) (speeds @ [e_maxspeed d]) (Suc step)
         (if anim then save_frame step (mark_path_edges g alg prev cur s) else mark_path_edges g alg prev cur s)"
    and reached: "\<And>len_sum speeds step s. pred_inv g (previous s) (distance s) \<Longrightarrow>
       I orig len_sum speeds step s \<Longrightarrow> Q (Walk_reached len_sum speeds step) s"
    and unknown: "\<And>cur len_sum speeds step s. pred_inv g (previous s) (distance s) \<Longrightarrow>
       I cur len_sum speeds step s \<Longrightarrow> cur \<noteq> orig \<Longrightarrow> cur \<notin> set (g_nodes g) \<Longrightarrow>
       Q (Walk_error KeyError) s"
    and unacc: "\<And>cur len_sum speeds step s. pred_inv g (previous s) (distance s) \<Longrightarrow>
       I cur len_sum speeds step s \<Longrightarrow> cur \<noteq> orig \<Longrightarrow> cur \<in> set (g_nodes g) \<Longrightarrow>
       previous s cur = None \<Longrightarrow> Q Walk_unaccessible s"
    and nokey0: "\<And>cur len_sum speeds step s prev. pred_inv g (previous s) (distance s) \<Longrightarrow>
       I cur len_sum speeds step s \<Longrightarrow> cur \<noteq> orig \<Longrightarrow> cur \<in> set (g_nodes g) \<Longrightarrow>
       previous s cur = Some prev \<Longrightarrow> edge_keys g prev cur \<noteq> [] \<Longrightarrow> edge_data g (prev, cur, 0) = None \<Longrightarrow>
       Q (Walk_error KeyError) (mark_path_edges g alg prev cur s)"
  shows "\<exists>r s'. walk g orig anim alg cur len_sum speeds step s = Some (r, s') \<and> Q r s'"
  using inv
proof (induction "card {x \<in> set (g_nodes g). distance s x < distance s cur}"
         arbitrary: cur len_sum speeds step s rule: less_induct)
  case less
  note unfold = walk.simps [of g orig anim alg cur len_sum speeds step s]
  show ?case
  proof (cases "cur \<noteq> orig \<and> cur \<in> set (g_nodes g) \<and> previous s cur \<noteq> None")
    case False
    then show ?thesis unfolding unfold using less.prems reached unknown unacc by auto
  next
    case True
    then obtain prev where prev: "previous s cur = Some prev" by auto
    with less.prems True have link: "prev \<in> set (g_nodes g)" "edge_keys g prev cur \<noteq> []"
      "distance s prev < distance s cur"
      by (auto dest: pred_invD)
    show ?thesis
    proof (cases "edge_data g (prev, cur, 0)")
      case None
      with True prev link less.prems nokey0 show ?thesis unfolding unfold by simp
    next
      case (Some d)
      let ?s = "if anim then save_frame step (mark_path_edges g alg prev cur s) else mark_path_edges g alg prev cur s"
      have "card {x \<in> set (g_nodes g). distance ?s x < distance ?s prev}
            < card {x \<in> set (g_nodes g). distance s x < distance s cur}"
        using card_below_decreases [of "set (g_nodes g)" prev "distance s" cur] link by simp
      moreover have "pred_inv g (previous ?s) (distance ?s)" using less.prems by simp
      moreover have "I prev (len_sum + e_length d) (speeds @ [e_maxspeed d]) (Suc step) ?s"
        using step [OF less.prems(1,2)] True prev link Some by simp
      ultimately obtain r s' where "walk g orig anim alg prev (len_sum + e_length d)
                                      (speeds @ [e_maxspeed d]) (Suc step) ?s = Some (r, s') \<and> Q r s'"
        using less.hyps by blast
      with True prev link Some show ?thesis unfolding unfold by simp
    qed
  qed
qed

lemma walk_returns:
  assumes "pred_inv g (previous s) (distance s)"
  shows "\<exists>r. walk g orig anim alg cur len_sum speeds step s = Some r"
  using walk_rule [where I = "\<lambda>_ _ _ _ _. True" and Q = "\<lambda>_ _. True", OF assms] by auto

lemma reconstruct_path_returns:
  "pred_inv g (previous s) (distance s) \<Longrightarrow> \<exists>r. reconstruct_path g orig dest anim alg s = Some r"
  using walk_returns [of g "style_edges Unvisited (map fst (g_edges g)) (s\<lparr>stage := Reconstructing\<rparr>)"
                         orig anim alg dest 0 "[]" 0]
  by (auto simp: reconstruct_path_def split: walk_result.splits)

text \<open>C5. On a well-formed graph, \<open>reconstruct_path\<close> called on the state that
  \<open>dijkstra\<close> leaves behind always returns (its loop over \<open>previous\<close> links
  ends), whatever the endpoints.\<close>

theorem reconstruct_after_dijkstra_returns:
  assumes "wf_graph g"
  shows "\<exists>r. reconstruct_path g orig dest anim alg (snd (dijkstra g orig dest anim' s)) = Some r"
  using reconstruct_path_returns [OF pred_inv_after_dijkstra [OF assms]] .

section \<open>Errors\<close>

text \<open>On a well-formed graph under the predecessor invariant, a walk from a node
  of the graph never raises, and every speed it collects is positive; it
  collects none exactly when it starts at the origin.\<close>

lemma walk_no_error:
  assumes wf: "wf_graph g" and inv: "pred_inv g (previous s) (distance s)" and cur: "cur \<in> set (g_nodes g)"
  shows "\<exists>r s'. walk g orig anim alg cur 0 [] 0 s = Some (r, s') \<and> (\<forall>e. r \<noteq> Walk_error e) \<and>
           (\<forall>l sp st. r = Walk_reached l sp st \<longrightarrow> (\<forall>x \<in> set sp. 0 < x) \<and> (sp = [] \<longleftrightarrow> cur = orig))"
proof -
  have key0: "edge_keys g u v \<noteq> [] \<Longrightarrow> edge_data g (u, v, 0) \<noteq> None" for u v
    using edge_data_key0 [OF wf] by blast
  have speed: "edge_data g e = Some d \<Longrightarrow> 0 < e_maxspeed d" for e d
    using wf_graph_edge [OF wf] edge_data_SomeD by (metis prod.exhaust)
  show ?thesis
    by (rule walk_rule [where I = "\<lambda>c l (sp :: real list) st s. c \<in> set (g_nodes g) \<and> (\<forall>x \<in> set sp. 0 < x) \<and>
                                     (sp = [] \<longrightarrow> c = cur) \<and> (sp \<noteq> [] \<longrightarrow> cur \<noteq> orig)", OF inv])
       (use cur key0 speed in \<open>auto dest: pred_invD\<close>)
qed

text \<open>The metrics of a walk that collected positive speeds.\<close>

lemma route_report_Route:
  assumes "sp \<noteq> []" "\<forall>x \<in> set sp. 0 < x"
  shows "fst (route_report anim l sp st s) =
           Inr (Route (l / 1000) (sum_list sp / real (length sp)) (l / 1000 / (sum_list sp / real (length sp)) * 60))"
proof -
  have "0 < sum_list sp" using assms by (rule sum_list_pos)
  with assms(1) show ?thesis by (simp add: route_report_def Let_def)
qed

text \<open>C7. When origin and destination coincide, \<open>reconstruct_path\<close> walks no
  edge and then raises \<open>ZeroDivisionError\<close> computing the mean of the empty
  speed list, after styling every edge unvisited and before saving any frame.\<close>

theorem reconstruct_same_endpoint:
  "reconstruct_path g v v anim alg s = Some (Inl ZeroDivisionError, recon_start g s)"
  by (simp add: reconstruct_path_def walk.simps [of g v anim alg v] route_report_def)

text \<open>C6. On a well-formed graph whose predecessor links satisfy the search's
  invariant, \<open>reconstruct_path\<close> towards a node of the graph returns, never
  raises \<open>KeyError\<close>, and raises \<open>ZeroDivisionError\<close> exactly when origin and
  destination coincide.\<close>

theorem reconstruct_path_errors:
  assumes wf: "wf_graph g" and dest: "dest \<in> set (g_nodes g)"
    and inv: "pred_inv g (previous s) (distance s)"
  shows "\<exists>r s'. reconstruct_path g orig dest anim alg s = Some (r, s') \<and>
                r \<noteq> Inl KeyError \<and> (r = Inl ZeroDivisionError \<longleftrightarrow> orig = dest)"
proof -
  have "pred_inv g (previous (recon_start g s)) (distance (recon_start g s))" using inv by simp
  from walk_no_error [OF wf this dest, of orig anim alg]
  obtain r s' where w: "walk g orig anim alg dest 0 [] 0 (recon_start g s) = Some (r, s')"
    and ok: "\<forall>e. r \<noteq> Walk_error e"
      "\<forall>l sp st. r = Walk_reached l sp st \<longrightarrow> (\<forall>x \<in> set sp. 0 < x) \<and> (sp = [] \<longleftrightarrow> dest = orig)"
    by blast
  show ?thesis
  proof (cases r)
    case (Walk_error e)
    with ok show ?thesis by simp
  next
    case Walk_unaccessible
    have "dest \<noteq> orig"
      using w Walk_unaccessible by (auto simp: walk.simps [of g orig anim alg dest])
    with w Walk_unaccessible show ?thesis by (simp add: reconstruct_path_def)
  next
    case (Walk_reached l sp st)
    with ok have pos: "\<forall>x \<in> set sp. 0 < x" and empty: "sp = [] \<longleftrightarrow> dest = orig" by auto
    show ?thesis
    proof (cases "sp = []")
      case True
      with w Walk_reached empty show ?thesis by (auto simp: reconstruct_path_def route_report_def)
    next
      case False
      obtain r' s'' where rr: "route_report anim l sp st s' = (r', s'')" by (metis prod.exhaust)
      with route_report_Route [OF False pos, of anim l st s'] have "r' = Inr (Route (l / 1000)
          (sum_list sp / real (length sp)) (l / 1000 / (sum_list sp / real (length sp)) * 60))"
        by simp
      with rr w Walk_reached empty False show ?thesis by (simp add: reconstruct_path_def)
    qed
  qed
qed

end
