(* ===== verification/Paths.thy ===== *)
theory Paths
  imports Graph
begin

text \<open>
  Paths of the road graph: the specification against which the distances of
  the search are judged. A path is the list of the multigraph edges
  \<open>(u, v, key)\<close> it uses, so parallel edges are distinct paths; its weight is
  the sum of the edges' \<open>weight\<close> attributes. \<open>shortest g u v d\<close> says that
  some path from \<open>u\<close> to \<open>v\<close> weighs \<open>d\<close> and none weighs less.
\<close>

section \<open>Definitions\<close>

fun is_path :: "graph \<Rightarrow> node \<Rightarrow> edge list \<Rightarrow> node \<Rightarrow> bool" where
  "is_path g u [] v = (u = v)"
| "is_path g u (e # es) v =
     (e \<in> set (map fst (g_edges g)) \<and> fst e = u \<and> is_path g (fst (snd e)) es v)"

definition edge_weight :: "graph \<Rightarrow> edge \<Rightarrow> real" where
  "edge_weight g e = (case edge_data g e of Some d \<Rightarrow> e_weight d | None \<Rightarrow> 0)"

definition path_weight :: "graph \<Rightarrow> edge list \<Rightarrow> real" where
  "path_weight g es = sum_list (map (edge_weight g) es)"

definition reachable :: "graph \<Rightarrow> node \<Rightarrow> node \<Rightarrow> bool" where
  "reachable g u v \<longleftrightarrow> (\<exists>es. is_path g u es v)"

definition shortest :: "graph \<Rightarrow> node \<Rightarrow> node \<Rightarrow> real \<Rightarrow> bool" where
  "shortest g u v d \<longleftrightarrow>
     (\<exists>es. is_path g u es v \<and> path_weight g es = d) \<and> (\<forall>es. is_path g u es v \<longrightarrow> d \<le> path_weight g es)"

section \<open>Lemmas\<close>

lemma is_path_append [simp]:
  "is_path g u (es1 @ es2) w \<longleftrightarrow> (\<exists>v. is_path g u es1 v \<and> is_path g v es2 w)"
  by (induction es1 arbitrary: u) auto

lemma path_weight_simps [simp]:
  "path_weight g [] = 0"
  "path_weight g (e # es) = edge_weight g e + path_weight g es"
  "path_weight g (es1 @ es2) = path_weight g es1 + path_weight g es2"
  by (simp_all add: path_weight_def)

lemma edge_weight_mem:
  assumes "wf_graph g" "(e, d) \<in> set (g_edges g)"
  shows "edge_weight g e = e_weight d"
proof -
  have "distinct (map fst (g_edges g))" using assms(1) by (simp add: wf_graph_def)
  with assms(2) have "edge_data g e = Some d" by (simp add: edge_data_def)
  then show ?thesis by (simp add: edge_weight_def)
qed

lemma edge_weight_pos:
  assumes "wf_graph g" "e \<in> set (map fst (g_edges g))"
  shows "0 < edge_weight g e"
proof -
  obtain d where mem: "(e, d) \<in> set (g_edges g)" using assms(2) by auto
  obtain u v k where "e = (u, v, k)" by (metis prod.exhaust)
  with wf_graph_edge [OF assms(1)] mem have "0 < e_weight d" by blast
  with edge_weight_mem [OF assms(1) mem] show ?thesis by simp
qed

lemma path_weight_nonneg:
  "wf_graph g \<Longrightarrow> is_path g u es v \<Longrightarrow> 0 \<le> path_weight g es"
proof (induction es arbitrary: u)
  case Nil
  then show ?case by simp
next
  case (Cons e es)
  then have "0 < edge_weight g e" "0 \<le> path_weight g es"
    using edge_weight_pos by auto
  then show ?case by simp
qed

lemma is_path_edge_nodes:
  assumes "wf_graph g" "e \<in> set (map fst (g_edges g))"
  shows "fst e \<in> set (g_nodes g) \<and> fst (snd e) \<in> set (g_nodes g)"
proof -
  obtain d where mem: "(e, d) \<in> set (g_edges g)" using assms(2) by auto
  obtain u v k where "e = (u, v, k)" by (metis prod.exhaust)
  with wf_graph_edge [OF assms(1)] mem show ?thesis by auto
qed

text \<open>A path that starts inside a set of nodes and ends outside it crosses the
  boundary on some edge.\<close>

lemma path_leaves:
  "is_path g u es v \<Longrightarrow> u \<in> S \<Longrightarrow> v \<notin> S \<Longrightarrow>
   \<exists>es1 e es2. es = es1 @ e # es2 \<and> is_path g u es1 (fst e) \<and> e \<in> set (map fst (g_edges g)) \<and>
               fst e \<in> S \<and> fst (snd e) \<notin> S \<and> is_path g (fst (snd e)) es2 v"
proof (induction es arbitrary: u)
  case Nil
  then show ?case by simp
next
  case (Cons e es)
  show ?case
  proof (cases "fst (snd e) \<in> S")
    case False
    with Cons.prems show ?thesis by (intro exI [of _ "[]"]) auto
  next
    case True
    with Cons.prems Cons.IH [of "fst (snd e)"] obtain es1 e' es2 where
      "es = es1 @ e' # es2" "is_path g (fst (snd e)) es1 (fst e')" "e' \<in> set (map fst (g_edges g))"
      "fst e' \<in> S" "fst (snd e') \<notin> S" "is_path g (fst (snd e')) es2 v"
      by auto
    with Cons.prems show ?thesis by (intro exI [of _ "e # es1"]) auto
  qed
qed

end
