(* ===== verification/Correctness.thy ===== *)
theory Correctness
  imports Search Paths
begin

text \<open>
  Shortest-path correctness of \<open>dijkstra\<close> (Search.thy) against the path
  specification of Paths.thy. The invariant \<open>dj_inv\<close> follows the abstract
  Dijkstra invariant (estimates are weights of paths, finished nodes are
  precise, their out-edges are relaxed, every finite unfinished estimate is on
  the frontier), adapted to what the script does: finished means
  \<open>visited\<close>, the frontier may hold stale entries (lazy deletion, main.py
  lines 157-158), and the destination is never marked visited because popping
  it ends the search (lines 151-157). \<open>search_result\<close> is what a normal
  return establishes.
\<close>

section \<open>Definitions\<close>

abbreviation improved :: "graph \<Rightarrow> node \<Rightarrow> edge \<Rightarrow> dist \<Rightarrow> gstate \<Rightarrow> gstate" where
  "improved g u e nd s \<equiv>
     style_edges Active (map fst (out_edges g (fst (snd e))))
       (style_edge Visited e s\<lparr>distance := (distance s)(fst (snd e) := nd),
                                previous := (previous s)(fst (snd e) := Some u)\<rparr>)"

text \<open>The invariant, over the visited flags \<open>V\<close>, distances \<open>D\<close> and stage \<open>st\<close>
  of a loop state with frontier \<open>pq\<close>, for a search from \<open>orig\<close> to \<open>dest\<close>.\<close>

definition inv_frontier :: "graph \<Rightarrow> frontier \<Rightarrow> (node \<Rightarrow> dist) \<Rightarrow> bool" where
  "inv_frontier g pq D \<longleftrightarrow> heap_inv pq \<and> (\<forall>(d, v) \<in> set pq. v \<in> set (g_nodes g) \<and> d \<noteq> Inf \<and> D v \<le> d)"

definition inv_paths :: "graph \<Rightarrow> node \<Rightarrow> (node \<Rightarrow> dist) \<Rightarrow> bool" where
  "inv_paths g orig D \<longleftrightarrow>
     (\<forall>v \<in> set (g_nodes g). D v \<noteq> Inf \<longrightarrow> (\<exists>es. is_path g orig es v \<and> D v = Fin (path_weight g es)))"

definition inv_final :: "graph \<Rightarrow> node \<Rightarrow> (node \<Rightarrow> bool) \<Rightarrow> (node \<Rightarrow> dist) \<Rightarrow> bool" where
  "inv_final g orig V D \<longleftrightarrow>
     (\<forall>v \<in> set (g_nodes g). V v \<longrightarrow> D v \<noteq> Inf \<and> (\<forall>es. is_path g orig es v \<longrightarrow> D v \<le> Fin (path_weight g es)))"

definition inv_relaxed :: "graph \<Rightarrow> (node \<Rightarrow> bool) \<Rightarrow> (node \<Rightarrow> dist) \<Rightarrow> bool" where
  "inv_relaxed g V D \<longleftrightarrow> (\<forall>((u, v, k), d) \<in> set (g_edges g). V u \<longrightarrow> D v \<le> dist_add (D u) (e_weight d))"

definition inv_complete :: "graph \<Rightarrow> frontier \<Rightarrow> (node \<Rightarrow> bool) \<Rightarrow> (node \<Rightarrow> dist) \<Rightarrow> bool" where
  "inv_complete g pq V D \<longleftrightarrow> (\<forall>v \<in> set (g_nodes g). \<not> V v \<longrightarrow> D v \<noteq> Inf \<longrightarrow> (D v, v) \<in> set pq)"

definition dj_inv ::
  "graph \<Rightarrow> node \<Rightarrow> node \<Rightarrow> frontier \<Rightarrow> (node \<Rightarrow> bool) \<Rightarrow> (node \<Rightarrow> dist) \<Rightarrow> stage \<Rightarrow> bool" where
  "dj_inv g orig dest pq V D st \<longleftrightarrow>
     st = Finding \<and> \<not> V dest \<and> inv_frontier g pq D \<and> inv_paths g orig D \<and> inv_final g orig V D \<and>
     inv_relaxed g V D \<and> inv_complete g pq V D \<and> (\<not> V orig \<longrightarrow> pq = [(Fin 0, orig)] \<and> D orig = Fin 0)"

text \<open>What the loop establishes when it returns a step count.\<close>

definition search_result :: "graph \<Rightarrow> node \<Rightarrow> node \<Rightarrow> gstate \<Rightarrow> bool" where
  "search_result g orig dest s \<longleftrightarrow>
     (\<forall>v \<in> set (g_nodes g). visited s v \<longrightarrow> (\<exists>d. distance s v = Fin d \<and> shortest g orig v d)) \<and>
     (stage s = Found \<longrightarrow> (\<exists>d. distance s dest = Fin d \<and> shortest g orig dest d)) \<and>
     (stage s \<noteq> Found \<longrightarrow> \<not> reachable g orig dest)"

section \<open>One relaxation pass\<close>

lemma relax_edges_Cons:
  "relax_edges g u (((x, v, k), dd) # es) pq s =
     (if dist_add (distance s u) (e_weight dd) < distance s v
      then relax_edges g u es (heappush (dist_add (distance s u) (e_weight dd), v) pq)
             (style_edges Active (map fst (out_edges g v))
               (style_edge Visited (x, v, k) s\<lparr>distance := (distance s)(v := dist_add (distance s u) (e_weight dd)),
                                                previous := (previous s)(v := Some u)\<rparr>))
      else relax_edges g u es pq (style_edge Visited (x, v, k) s))"
  by (simp add: Let_def)

declare relax_edges.simps(2) [simp del]

lemma improved_distance [simp]:
  "distance (improved g u e nd s) = (distance s)(fst (snd e) := nd)"
  by simp

lemma relax_edges_improve:
  assumes "dist_add (distance s u) (e_weight dd) < distance s v"
  shows "relax_edges g u (((x, v, k), dd) # es) pq s =
           relax_edges g u es (heappush (dist_add (distance s u) (e_weight dd), v) pq)
             (improved g u (x, v, k) (dist_add (distance s u) (e_weight dd)) s)"
  using assms unfolding relax_edges_Cons by simp

lemma relax_edges_keep:
  assumes "\<not> dist_add (distance s u) (e_weight dd) < distance s v"
  shows "relax_edges g u (((x, v, k), dd) # es) pq s = relax_edges g u es pq (style_edge Visited (x, v, k) s)"
  using assms unfolding relax_edges_Cons by (simp only: if_False)

lemma out_edge_step:
  assumes "wf_graph g" "set (((x, v, k), dd) # es) \<subseteq> set (out_edges g u)"
  shows "x = u" "0 < e_weight dd" "set es \<subseteq> set (out_edges g u)" "((x, v, k), dd) \<in> set (g_edges g)"
proof -
  have "((x, v, k), dd) \<in> set (out_edges g u)" using assms(2) by simp
  then show m: "((x, v, k), dd) \<in> set (g_edges g)" and "x = u" by (auto simp: out_edges_set)
  show "0 < e_weight dd" using wf_graph_edge [OF assms(1) m] by simp
  show "set es \<subseteq> set (out_edges g u)" using assms(2) by simp
qed

lemma improve_not_source:
  assumes "0 < w" "dist_add (D u) w < D v"
  shows "v \<noteq> u"
proof
  assume "v = u"
  with assms have "dist_add (D u) w < D u" by simp
  moreover have "D u < dist_add (D u) w" using assms(1) calculation by (rule dist_add_less)
  ultimately show False by simp
qed

lemma relax_edges_src:
  assumes "wf_graph g"
  shows "set es \<subseteq> set (out_edges g u) \<Longrightarrow> distance (snd (relax_edges g u es pq s)) u = distance s u"
proof (induction es arbitrary: pq s)
  case Nil
  then show ?case by simp
next
  case (Cons p es)
  obtain x v k dd where p: "p = ((x, v, k), dd)" by (metis prod.exhaust)
  note e = out_edge_step [OF assms Cons.prems [unfolded p]]
  show ?case
  proof (cases "dist_add (distance s u) (e_weight dd) < distance s v")
    case True
    have "v \<noteq> u" by (rule improve_not_source [where D = "distance s", OF e(2) True])
    then show ?thesis
      unfolding p relax_edges_improve [OF True] using Cons.IH [OF e(3)] by simp
  next
    case False
    show ?thesis
      unfolding p relax_edges_keep [OF False] using Cons.IH [OF e(3), of pq "style_edge Visited (x, v, k) s"] by simp
  qed
qed

lemma relax_edges_mono:
  "distance (snd (relax_edges g u es pq s)) y \<le> distance s y"
proof (induction es arbitrary: pq s)
  case Nil
  then show ?case by simp
next
  case (Cons p es)
  obtain x v k dd where p: "p = ((x, v, k), dd)" by (metis prod.exhaust)
  let ?nd = "dist_add (distance s u) (e_weight dd)"
  show ?case
  proof (cases "?nd < distance s v")
    case True
    have a: "distance (snd (relax_edges g u es (heappush (?nd, v) pq) (improved g u (x, v, k) ?nd s))) y
             \<le> distance (improved g u (x, v, k) ?nd s) y" by (rule Cons.IH)
    have b: "distance (improved g u (x, v, k) ?nd s) y \<le> distance s y" using True by (simp add: less_imp_le)
    from order_trans [OF a b] show ?thesis unfolding p relax_edges_improve [OF True] .
  next
    case False
    show ?thesis
      unfolding p relax_edges_keep [OF False] using Cons.IH [of pq "style_edge Visited (x, v, k) s"] by simp
  qed
qed

lemma relax_edges_pq_mono: "set pq \<subseteq> set (fst (relax_edges g u es pq s))"
proof (induction es arbitrary: pq s)
  case Nil
  then show ?case by simp
next
  case (Cons p es)
  obtain x v k dd where p: "p = ((x, v, k), dd)" by (metis prod.exhaust)
  let ?nd = "dist_add (distance s u) (e_weight dd)"
  show ?case
  proof (cases "?nd < distance s v")
    case True
    have "set (heappush (?nd, v) pq) \<subseteq> set (fst (relax_edges g u es (heappush (?nd, v) pq) (improved g u (x, v, k) ?nd s)))"
      by (rule Cons.IH)
    then show ?thesis unfolding p relax_edges_improve [OF True] by auto
  next
    case False
    show ?thesis unfolding p relax_edges_keep [OF False] by (rule Cons.IH)
  qed
qed

lemma relax_edges_heap: "heap_inv pq \<Longrightarrow> heap_inv (fst (relax_edges g u es pq s))"
proof (induction es arbitrary: pq s)
  case Nil
  then show ?case by simp
next
  case (Cons p es)
  obtain x v k dd where p: "p = ((x, v, k), dd)" by (metis prod.exhaust)
  let ?nd = "dist_add (distance s u) (e_weight dd)"
  show ?case
  proof (cases "?nd < distance s v")
    case True
    then show ?thesis unfolding p relax_edges_improve [OF True] using Cons by blast
  next
    case False
    then show ?thesis unfolding p relax_edges_keep [OF False] using Cons by blast
  qed
qed

text \<open>After the pass every out-edge of \<open>u\<close> is relaxed.\<close>

lemma relax_edges_relaxed:
  assumes wf: "wf_graph g"
  shows "set es \<subseteq> set (out_edges g u) \<Longrightarrow> (e, dd) \<in> set es \<Longrightarrow>
         distance (snd (relax_edges g u es pq s)) (fst (snd e)) \<le> dist_add (distance s u) (e_weight dd)"
proof (induction es arbitrary: pq s)
  case Nil
  then show ?case by simp
next
  case (Cons p es)
  obtain x v k d0 where p: "p = ((x, v, k), d0)" by (metis prod.exhaust)
  note st = out_edge_step [OF wf Cons.prems(1) [unfolded p]]
  let ?nd = "dist_add (distance s u) (e_weight d0)"
  show ?case
  proof (cases "?nd < distance s v")
    case True
    let ?s2 = "improved g u (x, v, k) ?nd s" and ?pq2 = "heappush (?nd, v) pq"
    have vu: "v \<noteq> u" by (rule improve_not_source [where D = "distance s", OF st(2) True])
    have "distance (snd (relax_edges g u es ?pq2 ?s2)) (fst (snd e)) \<le> dist_add (distance s u) (e_weight dd)"
    proof (cases "(e, dd) = p")
      case True
      have "distance (snd (relax_edges g u es ?pq2 ?s2)) v \<le> distance ?s2 v" by (rule relax_edges_mono)
      with True p show ?thesis by simp
    next
      case False
      with Cons.prems(2) have "(e, dd) \<in> set es" by simp
      from Cons.IH [OF st(3) this, of ?pq2 ?s2] vu show ?thesis by simp
    qed
    then show ?thesis unfolding p relax_edges_improve [OF True] .
  next
    case False
    let ?s1 = "style_edge Visited (x, v, k) s"
    have "distance (snd (relax_edges g u es pq ?s1)) (fst (snd e)) \<le> dist_add (distance s u) (e_weight dd)"
    proof (cases "(e, dd) = p")
      case True
      have "distance (snd (relax_edges g u es pq ?s1)) v \<le> distance ?s1 v" by (rule relax_edges_mono)
      with True p False show ?thesis by (simp add: not_less)
    next
      case False
      with Cons.prems(2) have "(e, dd) \<in> set es" by simp
      from Cons.IH [OF st(3) this, of pq ?s1] show ?thesis by simp
    qed
    then show ?thesis unfolding p relax_edges_keep [OF False] .
  qed
qed

text \<open>A distance the pass changes is the weight of an out-edge of \<open>u\<close> added to
  the distance of \<open>u\<close>, and the new entry is on the frontier.\<close>

lemma relax_edges_changed:
  assumes wf: "wf_graph g"
  shows "set es \<subseteq> set (out_edges g u) \<Longrightarrow> distance (snd (relax_edges g u es pq s)) y \<noteq> distance s y \<Longrightarrow>
         (\<exists>k dd. ((u, y, k), dd) \<in> set es \<and>
                 distance (snd (relax_edges g u es pq s)) y = dist_add (distance s u) (e_weight dd)) \<and>
         (distance (snd (relax_edges g u es pq s)) y, y) \<in> set (fst (relax_edges g u es pq s))"
proof (induction es arbitrary: pq s)
  case Nil
  then show ?case by simp
next
  case (Cons p es)
  obtain x v k d0 where p: "p = ((x, v, k), d0)" by (metis prod.exhaust)
  note st = out_edge_step [OF wf Cons.prems(1) [unfolded p]]
  let ?nd = "dist_add (distance s u) (e_weight d0)"
  show ?case
  proof (cases "?nd < distance s v")
    case True
    let ?s2 = "improved g u (x, v, k) ?nd s" and ?pq2 = "heappush (?nd, v) pq"
    let ?r = "relax_edges g u es ?pq2 ?s2"
    have vu: "v \<noteq> u" by (rule improve_not_source [where D = "distance s", OF st(2) True])
    have step: "relax_edges g u (p # es) pq s = ?r" unfolding p by (rule relax_edges_improve [OF True])
    have prem: "distance (snd ?r) y \<noteq> distance s y" using Cons.prems(2) step by simp
    have "(\<exists>k dd. ((u, y, k), dd) \<in> set (p # es) \<and> distance (snd ?r) y = dist_add (distance s u) (e_weight dd)) \<and>
          (distance (snd ?r) y, y) \<in> set (fst ?r)"
    proof (cases "distance (snd ?r) y = distance ?s2 y")
      case True
      with prem have y: "y = v" "distance (snd ?r) v = ?nd" by (auto split: if_splits)
      moreover have "(?nd, v) \<in> set (fst ?r)" using relax_edges_pq_mono [of ?pq2] by auto
      ultimately show ?thesis using p st(1) by auto
    next
      case False
      from Cons.IH [OF st(3) False] vu show ?thesis by auto
    qed
    then show ?thesis unfolding step .
  next
    case False
    let ?s1 = "style_edge Visited (x, v, k) s"
    from Cons.prems(2) have "distance (snd (relax_edges g u es pq ?s1)) y \<noteq> distance ?s1 y"
      unfolding p relax_edges_keep [OF False] by simp
    from Cons.IH [OF st(3) this] show ?thesis unfolding p relax_edges_keep [OF False] by auto
  qed
qed

text \<open>Every entry the pass pushes is the weight of an out-edge of \<open>u\<close> added to
  the distance of \<open>u\<close>, finite, and no less than the final distance of its node.\<close>

lemma relax_edges_pushed:
  assumes wf: "wf_graph g"
  shows "set es \<subseteq> set (out_edges g u) \<Longrightarrow> z \<in> set (fst (relax_edges g u es pq s)) \<Longrightarrow>
         z \<in> set pq \<or> (\<exists>k dd. ((u, snd z, k), dd) \<in> set es \<and> fst z = dist_add (distance s u) (e_weight dd) \<and>
                         fst z \<noteq> Inf \<and> distance (snd (relax_edges g u es pq s)) (snd z) \<le> fst z)"
proof (induction es arbitrary: pq s)
  case Nil
  then show ?case by simp
next
  case (Cons p es)
  obtain x v k d0 where p: "p = ((x, v, k), d0)" by (metis prod.exhaust)
  note st = out_edge_step [OF wf Cons.prems(1) [unfolded p]]
  let ?nd = "dist_add (distance s u) (e_weight d0)"
  show ?case
  proof (cases "?nd < distance s v")
    case True
    let ?s2 = "improved g u (x, v, k) ?nd s" and ?pq2 = "heappush (?nd, v) pq"
    let ?r = "relax_edges g u es ?pq2 ?s2"
    have vu: "v \<noteq> u" by (rule improve_not_source [where D = "distance s", OF st(2) True])
    from Cons.prems(2) have z: "z \<in> set (fst ?r)" unfolding p relax_edges_improve [OF True] .
    have "z \<in> set pq \<or> (\<exists>k dd. ((u, snd z, k), dd) \<in> set (p # es) \<and> fst z = dist_add (distance s u) (e_weight dd) \<and>
                         fst z \<noteq> Inf \<and> distance (snd ?r) (snd z) \<le> fst z)"
    proof (cases "z = (?nd, v)")
      case True
      have "distance (snd ?r) v \<le> distance ?s2 v" by (rule relax_edges_mono)
      moreover have "?nd \<noteq> Inf" using \<open>?nd < distance s v\<close> by auto
      ultimately show ?thesis using True p st(1)
        by (intro disjI2 exI [of _ k] exI [of _ d0]) simp
    next
      case False
      from Cons.IH [OF st(3) z] False vu show ?thesis by auto
    qed
    then show ?thesis unfolding p relax_edges_improve [OF True] .
  next
    case False
    from Cons.prems(2) have "z \<in> set (fst (relax_edges g u es pq (style_edge Visited (x, v, k) s)))"
      unfolding p relax_edges_keep [OF False] .
    from Cons.IH [OF st(3) this] show ?thesis unfolding p relax_edges_keep [OF False] by auto
  qed
qed

lemma prod_le_fst: "(a :: 'a :: linorder, b :: 'b :: linorder) \<le> (c, e) \<Longrightarrow> a \<le> c"
  by (auto simp: less_eq_prod_def)

lemma heap_head_least:
  "heap_inv ((d, u) # pq') \<Longrightarrow> z \<in> set ((d, u) # pq') \<Longrightarrow> d \<le> fst z"
  by (cases z) (auto intro: prod_le_fst)

text \<open>The entry popped for an unvisited node carries its distance, and no path
  from the origin to it is shorter: the heart of Dijkstra's argument, in the
  form the lazy-deletion frontier needs.\<close>

lemma pop_precise:
  assumes wf: "wf_graph g" and orig: "orig \<in> set (g_nodes g)"
    and inv: "dj_inv g orig dest pq V D st" and pop: "heappop pq = Some ((d, u), pq')" and new: "\<not> V u"
  shows "D u = d \<and> d \<noteq> Inf \<and> (\<forall>es. is_path g orig es u \<longrightarrow> d \<le> Fin (path_weight g es))"
proof -
  have pq: "pq = (d, u) # pq'" using pop by (rule heappop_SomeD)
  from inv have fr: "inv_frontier g pq D" and cp: "inv_complete g pq V D" and fi: "inv_final g orig V D"
    and rx: "inv_relaxed g V D" and start: "\<not> V orig \<longrightarrow> pq = [(Fin 0, orig)] \<and> D orig = Fin 0"
    by (simp_all add: dj_inv_def)
  from fr pq have heap: "heap_inv ((d, u) # pq')" and u: "u \<in> set (g_nodes g)" "d \<noteq> Inf" "D u \<le> d"
    by (auto simp: inv_frontier_def)
  have "D u \<noteq> Inf" using u by auto
  with cp u(1) new have "(D u, u) \<in> set pq" unfolding inv_complete_def by blast
  then have "(D u, u) \<in> set ((d, u) # pq')" using pq by simp
  with heap have "d \<le> D u" using heap_head_least by fastforce
  with u have Du: "D u = d" by simp
  have paths: "d \<le> Fin (path_weight g es)" if path: "is_path g orig es u" for es
  proof (cases "V orig")
    case False
    with start pq have "d = Fin 0" "u = orig" by simp_all
    with path_weight_nonneg [OF wf path] show ?thesis by simp
  next
    case True
    from path_leaves [OF path, of "{v. V v}"] True new obtain es1 e es2 where
      split: "es = es1 @ e # es2" "is_path g orig es1 (fst e)" "e \<in> set (map fst (g_edges g))"
      "V (fst e)" "\<not> V (fst (snd e))" "is_path g (fst (snd e)) es2 u"
      by blast
    obtain x y k where e: "e = (x, y, k)" by (metis prod.exhaust)
    obtain dd where mem: "((x, y, k), dd) \<in> set (g_edges g)" using split(3) e by auto
    have nodes: "x \<in> set (g_nodes g)" "y \<in> set (g_nodes g)" using wf_graph_edge [OF wf mem] by simp_all
    have w: "edge_weight g e = e_weight dd" using edge_weight_mem [OF wf mem] e by simp
    have "D x \<le> Fin (path_weight g es1)" using fi nodes split(2,4) e by (simp add: inv_final_def)
    moreover have "D y \<le> dist_add (D x) (e_weight dd)" using rx mem split(4) e
      by (auto simp: inv_relaxed_def)
    ultimately have "D y \<le> Fin (path_weight g es1 + e_weight dd)"
      using dist_add_mono [of "D x" "Fin (path_weight g es1)" "e_weight dd"] by simp
    also have "\<dots> \<le> Fin (path_weight g es)"
      using split(1) w path_weight_nonneg [OF wf split(6)] e by simp
    finally have Dy: "D y \<le> Fin (path_weight g es)" .
    then have "D y \<noteq> Inf" by auto
    with cp nodes(2) split(5) e have "(D y, y) \<in> set pq" unfolding inv_complete_def by auto
    then have "(D y, y) \<in> set ((d, u) # pq')" using pq by simp
    with heap have "d \<le> D y" using heap_head_least by fastforce
    with Dy show ?thesis by simp
  qed
  show ?thesis using Du u paths by simp
qed

lemma dj_inv_stale:
  assumes inv: "dj_inv g orig dest pq V D st" and pop: "heappop pq = Some ((d, u), pq')" and old: "V u"
  shows "dj_inv g orig dest pq' V D st"
proof -
  have pq: "pq = (d, u) # pq'" using pop by (rule heappop_SomeD)
  have "inv_frontier g pq' D" using inv pq by (auto simp: dj_inv_def inv_frontier_def)
  moreover have "inv_complete g pq' V D"
  proof -
    have "(D v, v) \<in> set pq'" if "v \<in> set (g_nodes g)" "\<not> V v" "D v \<noteq> Inf" for v
    proof -
      have "(D v, v) \<in> set pq" using inv that by (auto simp: dj_inv_def inv_complete_def)
      moreover have "v \<noteq> u" using that old by auto
      ultimately show ?thesis using pq by auto
    qed
    then show ?thesis by (simp add: inv_complete_def)
  qed
  moreover have "\<not> V orig \<longrightarrow> pq' = [(Fin 0, orig)] \<and> D orig = Fin 0"
    using inv pq old by (auto simp: dj_inv_def)
  ultimately show ?thesis using inv by (simp add: dj_inv_def)
qed

text \<open>A distance lowered by relaxing an out-edge of a node reached by a path is
  itself the weight of a path.\<close>

lemma relaxed_edge_path:
  assumes wf: "wf_graph g" and paths: "inv_paths g orig D" and u: "u \<in> set (g_nodes g)" "D u \<noteq> Inf"
    and e: "((u, y, k), dd) \<in> set (out_edges g u)"
  shows "\<exists>es. is_path g orig es y \<and> dist_add (D u) (e_weight dd) = Fin (path_weight g es)"
proof -
  obtain es where es: "is_path g orig es u" "D u = Fin (path_weight g es)"
    using paths u by (auto simp: inv_paths_def)
  have mem: "((u, y, k), dd) \<in> set (g_edges g)" using e by (simp add: out_edges_set)
  then have "is_path g orig (es @ [(u, y, k)]) y" using es(1) by force
  moreover have "path_weight g (es @ [(u, y, k)]) = path_weight g es + e_weight dd"
    using edge_weight_mem [OF wf mem] by simp
  ultimately show ?thesis using es(2) by (intro exI [of _ "es @ [(u, y, k)]"]) simp
qed

text \<open>What one relaxation pass over the out-edges of the popped node \<open>u\<close>
  does to the distances, in the terms of the invariant.\<close>

lemma fresh_pass_facts:
  assumes wf: "wf_graph g"
    and r: "relax_edges g u (out_edges g u) pq' s1 = (pq'', s')"
  shows "distance s' u = distance s1 u"
    and "\<And>y. distance s' y \<le> distance s1 y"
    and "\<And>e dd. (e, dd) \<in> set (out_edges g u) \<Longrightarrow>
           distance s' (fst (snd e)) \<le> dist_add (distance s1 u) (e_weight dd)"
    and "\<And>y. distance s' y \<noteq> distance s1 y \<Longrightarrow>
           (\<exists>k dd. ((u, y, k), dd) \<in> set (out_edges g u) \<and> distance s' y = dist_add (distance s1 u) (e_weight dd)) \<and>
           (distance s' y, y) \<in> set pq''"
    and "\<And>z. z \<in> set pq'' \<Longrightarrow> z \<in> set pq' \<or>
           (\<exists>k dd. ((u, snd z, k), dd) \<in> set (out_edges g u) \<and> fst z = dist_add (distance s1 u) (e_weight dd) \<and>
              fst z \<noteq> Inf \<and> distance s' (snd z) \<le> fst z)"
    and "set pq' \<subseteq> set pq''"
    and "heap_inv pq' \<Longrightarrow> heap_inv pq''"
proof -
  have R: "pq'' = fst (relax_edges g u (out_edges g u) pq' s1)" "s' = snd (relax_edges g u (out_edges g u) pq' s1)"
    using r by simp_all
  show "distance s' u = distance s1 u" unfolding R(2) by (rule relax_edges_src [OF wf order_refl])
  show "\<And>y. distance s' y \<le> distance s1 y" unfolding R(2) by (rule relax_edges_mono)
  show "\<And>e dd. (e, dd) \<in> set (out_edges g u) \<Longrightarrow>
          distance s' (fst (snd e)) \<le> dist_add (distance s1 u) (e_weight dd)"
    unfolding R(2) by (rule relax_edges_relaxed [OF wf order_refl])
  show "\<And>y. distance s' y \<noteq> distance s1 y \<Longrightarrow>
          (\<exists>k dd. ((u, y, k), dd) \<in> set (out_edges g u) \<and> distance s' y = dist_add (distance s1 u) (e_weight dd)) \<and>
          (distance s' y, y) \<in> set pq''"
    unfolding R by (rule relax_edges_changed [OF wf order_refl])
  show "\<And>z. z \<in> set pq'' \<Longrightarrow> z \<in> set pq' \<or>
          (\<exists>k dd. ((u, snd z, k), dd) \<in> set (out_edges g u) \<and> fst z = dist_add (distance s1 u) (e_weight dd) \<and>
             fst z \<noteq> Inf \<and> distance s' (snd z) \<le> fst z)"
    unfolding R by (rule relax_edges_pushed [OF wf order_refl])
  show "set pq' \<subseteq> set pq''" unfolding R(1) by (rule relax_edges_pq_mono)
  show "heap_inv pq' \<Longrightarrow> heap_inv pq''" unfolding R(1) by (rule relax_edges_heap)
qed

lemma dj_inv_fresh:
  assumes wf: "wf_graph g" and orig: "orig \<in> set (g_nodes g)"
    and inv: "dj_inv g orig dest pq (visited s) (distance s) (stage s)"
    and pop: "heappop pq = Some ((d, u), pq')" and ud: "u \<noteq> dest" and new: "\<not> visited s u"
    and r: "relax_edges g u (out_edges g u) pq' (s\<lparr>visited := (visited s)(u := True)\<rparr>) = (pq'', s')"
  shows "dj_inv g orig dest pq'' (visited s') (distance s') (stage s')"
proof -
  let ?V = "visited s" and ?D = "distance s" and ?D' = "distance s'"
  note f = fresh_pass_facts [OF wf r, simplified]
  have pq: "pq = (d, u) # pq'" using pop by (rule heappop_SomeD)
  have V': "visited s' = ?V(u := True)" using relax_edges_visited_eq [OF r] by simp
  have "s' = snd (relax_edges g u (out_edges g u) pq' (s\<lparr>visited := (visited s)(u := True)\<rparr>))"
    using r by simp
  then have st': "stage s' = stage s" by simp
  from inv have fr: "inv_frontier g pq ?D" and pa: "inv_paths g orig ?D" and fi: "inv_final g orig ?V ?D"
    and rx: "inv_relaxed g ?V ?D" and cp: "inv_complete g pq ?V ?D" and d: "\<not> ?V dest" "stage s = Finding"
    and start: "\<not> ?V orig \<longrightarrow> pq = [(Fin 0, orig)] \<and> ?D orig = Fin 0"
    by (simp_all add: dj_inv_def)
  from pop_precise [OF wf orig inv pop new] have P: "?D u = d" "d \<noteq> Inf"
    "\<And>es. is_path g orig es u \<Longrightarrow> d \<le> Fin (path_weight g es)" by auto
  have un: "u \<in> set (g_nodes g)" using fr pq by (auto simp: inv_frontier_def)
  have newpath: "\<exists>es. is_path g orig es y \<and> ?D' y = Fin (path_weight g es)" if ch: "?D' y \<noteq> ?D y" for y
  proof -
    obtain k dd where e: "((u, y, k), dd) \<in> set (out_edges g u)" "?D' y = dist_add (?D u) (e_weight dd)"
      using f(4) [OF ch] by blast
    from relaxed_edge_path [OF wf pa un _ e(1)] P(1,2) e(2) show ?thesis by auto
  qed
  have keep: "?D' y = ?D y" if "y \<in> set (g_nodes g)" "?V y" for y
  proof (rule ccontr)
    assume ch: "?D' y \<noteq> ?D y"
    obtain es where "is_path g orig es y" "?D' y = Fin (path_weight g es)" using newpath [OF ch] by blast
    with fi that have "?D y \<le> ?D' y" by (auto simp: inv_final_def)
    with f(2) [of y] ch show False by simp
  qed
  have "inv_frontier g pq'' ?D'"
    unfolding inv_frontier_def
  proof (intro conjI ballI)
    show "heap_inv pq''" using f(7) fr pq by (simp add: inv_frontier_def)
  next
    fix z assume z: "z \<in> set pq''"
    obtain d0 v where zv: "z = (d0, v)" by (metis prod.exhaust)
    show "case z of (d0, v) \<Rightarrow> v \<in> set (g_nodes g) \<and> d0 \<noteq> Inf \<and> ?D' v \<le> d0"
    proof (cases "z \<in> set pq'")
      case True
      with fr pq zv have "v \<in> set (g_nodes g) \<and> d0 \<noteq> Inf \<and> ?D v \<le> d0" by (auto simp: inv_frontier_def)
      with f(2) [of v] zv show ?thesis by (auto intro: order_trans)
    next
      case False
      with f(5) [OF z] zv obtain k dd where "((u, v, k), dd) \<in> set (out_edges g u)" "d0 \<noteq> Inf" "?D' v \<le> d0"
        by auto
      with wf_graph_edge [OF wf] zv show ?thesis by (auto simp: out_edges_set)
    qed
  qed
  moreover have "inv_paths g orig ?D'"
    unfolding inv_paths_def
  proof (intro ballI impI)
    fix v assume v: "v \<in> set (g_nodes g)" "?D' v \<noteq> Inf"
    show "\<exists>es. is_path g orig es v \<and> ?D' v = Fin (path_weight g es)"
    proof (cases "?D' v = ?D v")
      case True
      with pa v show ?thesis by (auto simp: inv_paths_def)
    next
      case False
      then show ?thesis by (rule newpath)
    qed
  qed
  moreover have "inv_final g orig (visited s') ?D'"
    using fi keep P f(1) V' by (auto simp: inv_final_def)
  moreover have "inv_relaxed g (visited s') ?D'"
    unfolding inv_relaxed_def
  proof (clarify)
    fix x v k dd assume mem: "((x, v, k), dd) \<in> set (g_edges g)" and vis: "visited s' x"
    show "?D' v \<le> dist_add (?D' x) (e_weight dd)"
    proof (cases "x = u")
      case True
      with mem f(3) [of "(x, v, k)" dd] f(1) show ?thesis by (simp add: out_edges_set)
    next
      case False
      with vis V' have "?V x" by simp
      moreover have "x \<in> set (g_nodes g)" using wf_graph_edge [OF wf mem] by simp
      ultimately have "?D' x = ?D x" "?D v \<le> dist_add (?D x) (e_weight dd)"
        using keep rx mem by (auto simp: inv_relaxed_def)
      with f(2) [of v] show ?thesis by (auto intro: order_trans)
    qed
  qed
  moreover have "inv_complete g pq'' (visited s') ?D'"
    unfolding inv_complete_def
  proof (intro ballI impI)
    fix v assume v: "v \<in> set (g_nodes g)" "\<not> visited s' v" "?D' v \<noteq> Inf"
    then have vu: "v \<noteq> u" and nv: "\<not> ?V v" using V' by (auto split: if_splits)
    show "(?D' v, v) \<in> set pq''"
    proof (cases "?D' v = ?D v")
      case True
      with cp v nv have "(?D v, v) \<in> set pq" by (auto simp: inv_complete_def)
      with pq vu f(6) True show ?thesis by auto
    next
      case False
      with f(4) show ?thesis by blast
    qed
  qed
  moreover have "\<not> visited s' orig \<longrightarrow> pq'' = [(Fin 0, orig)] \<and> ?D' orig = Fin 0"
    using start pq V' by auto
  ultimately show ?thesis using d ud V' st' by (simp add: dj_inv_def)
qed

lemma start_state_search [simp]:
  "distance (start_state g orig dest s) =
     (\<lambda>n. if n \<in> set (g_nodes g) then Inf else distance s n)(orig := Fin 0)"
  "stage (start_state g orig dest s) = Finding"
  by (simp_all add: Let_def fun_eq_iff)

lemma dj_inv_start:
  assumes wf: "wf_graph g" and nodes: "orig \<in> set (g_nodes g)" "dest \<in> set (g_nodes g)"
  shows "dj_inv g orig dest [(Fin 0, orig)] (visited (start_state g orig dest s))
           (distance (start_state g orig dest s)) (stage (start_state g orig dest s))"
proof -
  let ?S = "start_state g orig dest s"
  have D: "v = orig" if "distance ?S v \<noteq> Inf" "v \<in> set (g_nodes g)" for v
    using that by (simp split: if_splits)
  have V: "\<not> visited ?S v" if "v \<in> set (g_nodes g)" for v
    using that by simp
  have "inv_paths g orig (distance ?S)"
    unfolding inv_paths_def
  proof (intro ballI impI)
    fix v assume "v \<in> set (g_nodes g)" "distance ?S v \<noteq> Inf"
    with D have "v = orig" by blast
    then show "\<exists>es. is_path g orig es v \<and> distance ?S v = Fin (path_weight g es)"
      by (intro exI [of _ "[]"]) simp
  qed
  moreover have "inv_relaxed g (visited ?S) (distance ?S)"
    unfolding inv_relaxed_def
  proof (clarify)
    fix u v k d assume mem: "((u, v, k), d) \<in> set (g_edges g)" and vis: "visited ?S u"
    have "u \<in> set (g_nodes g)" using wf_graph_edge [OF wf mem] by simp
    with V vis show "distance ?S v \<le> dist_add (distance ?S u) (e_weight d)" by blast
  qed
  moreover have "inv_complete g [(Fin 0, orig)] (visited ?S) (distance ?S)"
    unfolding inv_complete_def
  proof (intro ballI impI)
    fix v assume "v \<in> set (g_nodes g)" "\<not> visited ?S v" "distance ?S v \<noteq> Inf"
    with D have "v = orig" by blast
    then show "(distance ?S v, v) \<in> set [(Fin 0, orig)]" by simp
  qed
  moreover have "inv_final g orig (visited ?S) (distance ?S)"
    unfolding inv_final_def using V by blast
  moreover have "inv_frontier g [(Fin 0, orig)] (distance ?S)"
    using nodes by (simp add: inv_frontier_def)
  ultimately show ?thesis
    using nodes V by (simp add: dj_inv_def)
qed

text \<open>Visited nodes carry shortest distances.\<close>

lemma final_shortest:
  assumes "inv_paths g orig D" "inv_final g orig V D" "v \<in> set (g_nodes g)" "V v"
  shows "\<exists>d. D v = Fin d \<and> shortest g orig v d"
proof -
  from assms obtain es where es: "is_path g orig es v" "D v = Fin (path_weight g es)"
    by (auto simp: inv_final_def inv_paths_def)
  with assms(2-4) show ?thesis by (auto simp: inv_final_def shortest_def)
qed

lemma empty_frontier_unreachable:
  assumes wf: "wf_graph g" and inv: "dj_inv g orig dest [] V D st"
  shows "\<not> reachable g orig dest"
proof
  assume "reachable g orig dest"
  then obtain es where path: "is_path g orig es dest" by (auto simp: reachable_def)
  from inv have vo: "V orig" and nd: "\<not> V dest" by (auto simp: dj_inv_def)
  from path_leaves [OF path, of "{v. V v}"] vo nd obtain es1 e es2 where
    split: "is_path g orig es1 (fst e)" "e \<in> set (map fst (g_edges g))" "V (fst e)" "\<not> V (fst (snd e))"
    by blast
  obtain x y k where e: "e = (x, y, k)" by (metis prod.exhaust)
  obtain dd where mem: "((x, y, k), dd) \<in> set (g_edges g)" using split(2) e by auto
  have nodes: "x \<in> set (g_nodes g)" "y \<in> set (g_nodes g)" using wf_graph_edge [OF wf mem] by simp_all
  from inv nodes split(3) e have "D x \<noteq> Inf" by (auto simp: dj_inv_def inv_final_def)
  moreover from inv mem split(3) e have "D y \<le> dist_add (D x) (e_weight dd)"
    by (auto simp: dj_inv_def inv_relaxed_def)
  ultimately have "D y \<noteq> Inf" by (cases "D x") auto
  with inv nodes split(4) e show False by (auto simp: dj_inv_def inv_complete_def)
qed

text \<open>The loop rule instantiated with the search invariant: the stale and the
  finalising iterations keep it, so only the exits are left to show.\<close>

lemma dj_inv_loop_rule:
  assumes wf: "wf_graph g" and orig: "orig \<in> set (g_nodes g)"
    and inv: "dj_inv g orig dest pq (visited s) (distance s) (stage s)"
    and empty: "\<And>step s. dj_inv g orig dest [] (visited s) (distance s) (stage s) \<Longrightarrow> R (Inr step) s"
    and found: "\<And>pq step s d pq'. dj_inv g orig dest pq (visited s) (distance s) (stage s) \<Longrightarrow>
                   heappop pq = Some ((d, dest), pq') \<Longrightarrow> R (Inr step) (found_frames anim step (s\<lparr>stage := Found\<rparr>))"
    and unknown: "\<And>pq step s d node pq'. dj_inv g orig dest pq (visited s) (distance s) (stage s) \<Longrightarrow>
                   heappop pq = Some ((d, node), pq') \<Longrightarrow> node \<noteq> dest \<Longrightarrow> node \<notin> set (g_nodes g) \<Longrightarrow>
                   R (Inl KeyError) s"
  shows "R (fst (dijkstra_loop g dest anim pq step s)) (snd (dijkstra_loop g dest anim pq step s))"
proof (rule dijkstra_loop_rule [where I = "\<lambda>pq step s. dj_inv g orig dest pq (visited s) (distance s) (stage s)"
                                 and R = R])
  show "dj_inv g orig dest pq (visited s) (distance s) (stage s)" by (rule inv)
next
  fix pq step x pq' and s :: gstate
  assume "dj_inv g orig dest pq (visited s) (distance s) (stage s)" "heappop pq = Some (x, pq')" "visited s (snd x)"
  then show "dj_inv g orig dest pq' (visited s) (distance s) (stage s)"
    by (cases x) (auto intro: dj_inv_stale)
next
  fix pq step d node pq' pq'' and s s' :: gstate
  assume "dj_inv g orig dest pq (visited s) (distance s) (stage s)" "heappop pq = Some ((d, node), pq')"
    "node \<noteq> dest" "\<not> visited s node"
    "relax_edges g node (out_edges g node) pq' (s\<lparr>visited := (visited s)(node := True)\<rparr>) = (pq'', s')"
  from dj_inv_fresh [OF wf orig this]
  show "dj_inv g orig dest pq'' (visited (if anim then save_frame step s' else s'))
          (distance (if anim then save_frame step s' else s')) (stage (if anim then save_frame step s' else s'))"
    by simp
qed (fact empty found unknown)+

lemma dijkstra_loop_correct:
  assumes wf: "wf_graph g" and orig: "orig \<in> set (g_nodes g)"
    and inv: "dj_inv g orig dest pq (visited s) (distance s) (stage s)"
  shows "fst (dijkstra_loop g dest anim pq step s) = Inr k \<longrightarrow>
         search_result g orig dest (snd (dijkstra_loop g dest anim pq step s))"
proof (rule dj_inv_loop_rule [OF wf orig inv, where R = "\<lambda>r s'. r = Inr k \<longrightarrow> search_result g orig dest s'"])
  fix step and s :: gstate
  assume inv: "dj_inv g orig dest [] (visited s) (distance s) (stage s)"
  then show "Inr step = Inr k \<longrightarrow> search_result g orig dest s"
    using empty_frontier_unreachable [OF wf inv] final_shortest [of g orig "distance s" "visited s"]
    by (auto simp: search_result_def dj_inv_def)
next
  fix pq step d pq' and s :: gstate
  assume inv: "dj_inv g orig dest pq (visited s) (distance s) (stage s)" and pop: "heappop pq = Some ((d, dest), pq')"
  have nd: "\<not> visited s dest" using inv by (simp add: dj_inv_def)
  from pop_precise [OF wf orig inv pop nd] have P: "distance s dest = d" "d \<noteq> Inf"
    "\<forall>es. is_path g orig es dest \<longrightarrow> d \<le> Fin (path_weight g es)" by auto
  have dn: "dest \<in> set (g_nodes g)" using inv pop by (auto simp: dj_inv_def inv_frontier_def dest!: heappop_SomeD)
  obtain es where es: "is_path g orig es dest" "distance s dest = Fin (path_weight g es)"
    using inv P(1,2) dn by (auto simp: dj_inv_def inv_paths_def)
  have "shortest g orig dest (path_weight g es)"
    using es P unfolding shortest_def by auto
  then show "Inr step = Inr k \<longrightarrow> search_result g orig dest (found_frames anim step (s\<lparr>stage := Found\<rparr>))"
    using inv es final_shortest [of g orig "distance s" "visited s"]
    by (auto simp: search_result_def dj_inv_def)
qed simp_all

lemma search_result_after_dijkstra:
  assumes wf: "wf_graph g" and run: "dijkstra g orig dest anim s = (Inr k, s')"
  shows "search_result g orig dest s'"
proof -
  have nodes: "orig \<in> set (g_nodes g)" "dest \<in> set (g_nodes g)"
    and loop: "dijkstra_loop g dest anim [(Fin 0, orig)] 0 (start_state g orig dest s) = (Inr k, s')"
    using dijkstra_Inr_loop [OF run] by simp_all
  have "fst (dijkstra_loop g dest anim [(Fin 0, orig)] 0 (start_state g orig dest s)) = Inr k \<longrightarrow>
        search_result g orig dest (snd (dijkstra_loop g dest anim [(Fin 0, orig)] 0 (start_state g orig dest s)))"
    by (rule dijkstra_loop_correct [OF wf nodes(1) dj_inv_start [OF wf nodes]])
  with loop show ?thesis by simp
qed

section \<open>Correctness of the search\<close>

text \<open>C1. When \<open>dijkstra\<close> finishes normally, every node it finalised carries
  the weight of a shortest path from the origin; if it stopped at the
  destination, the destination's distance is a shortest-path weight too; and if
  it ran the frontier empty instead, the destination is unreachable.\<close>

theorem dijkstra_correct:
  assumes wf: "wf_graph g" and run: "dijkstra g orig dest anim s = (Inr k, s')"
  shows "search_result g orig dest s'"
  using search_result_after_dijkstra [OF assms] .

end
