(* ===== verification/Route.thy ===== *)
theory Route
  imports Reconstruct Correctness
begin

text \<open>
  The search and the reconstruction composed, as the script calls them
  (\<open>dijkstra(start, end)\<close> then \<open>reconstruct_path(start, end)\<close>, lines 252--253):
  what \<open>reconstruct_path\<close> prints on the state \<open>dijkstra\<close> leaves. Besides the
  predecessor invariant of Search.thy, the walk back needs that every node
  other than the origin with a finite distance has a predecessor
  (\<open>pred_total\<close>); then the walk from a reached destination ends at the
  origin, and a walk that ends at the origin follows edges of the graph.
\<close>

section \<open>Definitions\<close>

definition pred_total :: "graph \<Rightarrow> node \<Rightarrow> (node \<Rightarrow> node option) \<Rightarrow> (node \<Rightarrow> dist) \<Rightarrow> bool" where
  "pred_total g orig prev D \<longleftrightarrow> (\<forall>v \<in> set (g_nodes g). v \<noteq> orig \<longrightarrow> prev v = None \<longrightarrow> D v = Inf)"

section \<open>Every reached node but the origin has a predecessor\<close>

lemma relax_edges_pred_total:
  "pred_total g orig (previous s) (distance s) \<Longrightarrow>
   pred_total g orig (previous (snd (relax_edges g u es pq s))) (distance (snd (relax_edges g u es pq s)))"
proof (induction es arbitrary: pq s)
  case Nil
  then show ?case by simp
next
  case (Cons p es)
  obtain x v k dd where p: "p = ((x, v, k), dd)" by (metis prod.exhaust)
  show ?case
  proof (cases "dist_add (distance s u) (e_weight dd) < distance s v")
    case True
    let ?s = "improved g u (x, v, k) (dist_add (distance s u) (e_weight dd)) s"
    have "pred_total g orig (previous ?s) (distance ?s)"
      using Cons.prems by (simp add: pred_total_def)
    from Cons.IH [OF this] show ?thesis unfolding p relax_edges_improve [OF True] by simp
  next
    case False
    have "pred_total g orig (previous (style_edge Visited (x, v, k) s)) (distance (style_edge Visited (x, v, k) s))"
      using Cons.prems by simp
    from Cons.IH [OF this] show ?thesis unfolding p relax_edges_keep [OF False] by simp
  qed
qed

lemma dijkstra_loop_pred_total:
  assumes "pred_total g orig (previous s) (distance s)"
  shows "pred_total g orig (previous (snd (dijkstra_loop g dest anim pq step s)))
                           (distance (snd (dijkstra_loop g dest anim pq step s)))"
proof (rule dijkstra_loop_rule [where I = "\<lambda>pq step s. pred_total g orig (previous s) (distance s)"
                                 and R = "\<lambda>r s'. pred_total g orig (previous s') (distance s')"])
  fix pq step s d node pq' pq'' s'
  assume "pred_total g orig (previous s) (distance s)"
    and r: "relax_edges g node (out_edges g node) pq' (s\<lparr>visited := (visited s)(node := True)\<rparr>) = (pq'', s')"
  then have "pred_total g orig (previous s') (distance s')"
    using relax_edges_pred_total [of g orig "s\<lparr>visited := (visited s)(node := True)\<rparr>" node "out_edges g node" pq']
    by simp
  then show "pred_total g orig (previous (if anim then save_frame step s' else s'))
                        (distance (if anim then save_frame step s' else s'))"
    by simp
qed (use assms in simp_all)

lemma dijkstra_pred_total:
  assumes "dijkstra g orig dest anim s = (Inr k, s')"
  shows "pred_total g orig (previous s') (distance s')"
proof -
  have nodes: "orig \<in> set (g_nodes g)" "dest \<in> set (g_nodes g)"
    using assms dijkstra_cases [of g orig dest anim s] by (metis Inr_Inl_False fst_conv)+
  then have loop: "dijkstra_loop g dest anim [(Fin 0, orig)] 0 (start_state g orig dest s) = (Inr k, s')"
    using assms dijkstra_cases [of g orig dest anim s] by simp
  have "pred_total g orig (previous (start_state g orig dest s)) (distance (start_state g orig dest s))"
    by (simp add: pred_total_def Let_def)
  from dijkstra_loop_pred_total [OF this, of dest anim "[(Fin 0, orig)]" 0] loop
  show ?thesis by simp
qed

section \<open>The search raises only on unknown endpoints\<close>

lemma dijkstra_loop_Inr:
  assumes wf: "wf_graph g" and orig: "orig \<in> set (g_nodes g)"
    and inv: "dj_inv g orig dest pq (visited s) (distance s) (stage s)"
  shows "\<exists>k. fst (dijkstra_loop g dest anim pq step s) = Inr k"
proof (rule dj_inv_loop_rule [OF wf orig inv, where R = "\<lambda>r s'. \<exists>k. r = Inr k"])
  fix pq step d node pq' and s :: gstate
  assume "dj_inv g orig dest pq (visited s) (distance s) (stage s)" "heappop pq = Some ((d, node), pq')"
    "node \<notin> set (g_nodes g)"
  then show "\<exists>k. Inl KeyError = Inr k"
    by (auto simp: dj_inv_def inv_frontier_def dest!: heappop_SomeD)
qed simp_all

lemma dijkstra_returns:
  assumes wf: "wf_graph g" and nodes: "orig \<in> set (g_nodes g)" "dest \<in> set (g_nodes g)"
  shows "\<exists>k s'. dijkstra g orig dest anim s = (Inr k, s')"
proof -
  obtain k where "fst (dijkstra_loop g dest anim [(Fin 0, orig)] 0 (start_state g orig dest s)) = Inr k"
    using dijkstra_loop_Inr [OF wf nodes(1) dj_inv_start [OF wf nodes]] by blast
  with nodes dijkstra_cases [of g orig dest anim s] show ?thesis by (metis prod.collapse)
qed

section \<open>The walk back\<close>

lemma reachable_Nil [simp]: "reachable g v v"
  by (auto simp: reachable_def intro: exI [of _ "[]"])

lemma reachable_link:
  "edge_keys g u v \<noteq> [] \<Longrightarrow> reachable g v w \<Longrightarrow> reachable g u w"
proof -
  assume "edge_keys g u v \<noteq> []" "reachable g v w"
  then obtain k d es where "((u, v, k), d) \<in> set (g_edges g)" "is_path g v es w"
    by (auto simp: edge_keys_nonempty_iff reachable_def)
  then have "is_path g u ((u, v, k) # es) w" by force
  then show "reachable g u w" unfolding reachable_def by blast
qed

lemma dist_less_not_Inf: "(x :: dist) < y \<Longrightarrow> x \<noteq> Inf"
  by (cases x; cases y) auto

text \<open>From a node with a finite distance the walk does not stop at a node without
  predecessor, and a walk that reaches the origin has followed edges of the
  graph from the origin to its start.\<close>

lemma walk_outcome:
  assumes inv: "pred_inv g (previous s) (distance s)" and tot: "pred_total g orig (previous s) (distance s)"
  shows "\<exists>r s'. walk g orig anim alg cur len_sum speeds step s = Some (r, s') \<and>
           (r = Walk_unaccessible \<longrightarrow> distance s cur = Inf) \<and>
           (\<forall>l sp st. r = Walk_reached l sp st \<longrightarrow> reachable g orig cur)"
proof (rule walk_rule [where I = "\<lambda>c l sp st s'. distance s' = distance s \<and> previous s' = previous s \<and>
                                    (distance s cur \<noteq> Inf \<longrightarrow> distance s c \<noteq> Inf) \<and> reachable g c cur"
                        and Q = "\<lambda>r s'. (r = Walk_unaccessible \<longrightarrow> distance s cur = Inf) \<and>
                                 (\<forall>l sp st. r = Walk_reached l sp st \<longrightarrow> reachable g orig cur)", OF inv])
  fix c l sp st prev d and s' :: gstate
  assume I: "distance s' = distance s \<and> previous s' = previous s \<and>
               (distance s cur \<noteq> Inf \<longrightarrow> distance s c \<noteq> Inf) \<and> reachable g c cur"
    and inv': "pred_inv g (previous s') (distance s')" and c: "c \<in> set (g_nodes g)"
    and prev: "previous s' c = Some prev" and keys: "edge_keys g prev c \<noteq> []"
  have "distance s' prev < distance s' c" using pred_invD [OF inv' c prev] by simp
  with I have "distance s prev \<noteq> Inf" by (simp add: dist_less_not_Inf)
  moreover have "reachable g prev cur" using reachable_link [OF keys] I by simp
  ultimately show "distance (if anim then save_frame st (mark_path_edges g alg prev c s') else mark_path_edges g alg prev c s') = distance s \<and>
       previous (if anim then save_frame st (mark_path_edges g alg prev c s') else mark_path_edges g alg prev c s') = previous s \<and>
       (distance s cur \<noteq> Inf \<longrightarrow> distance s prev \<noteq> Inf) \<and> reachable g prev cur"
    using I by simp
next
  fix c l sp st and s' :: gstate
  assume I: "distance s' = distance s \<and> previous s' = previous s \<and>
               (distance s cur \<noteq> Inf \<longrightarrow> distance s c \<noteq> Inf) \<and> reachable g c cur"
    and "c \<noteq> orig" "c \<in> set (g_nodes g)" "previous s' c = None"
  with tot show "(Walk_unaccessible = Walk_unaccessible \<longrightarrow> distance s cur = Inf) \<and>
    (\<forall>l sp st. Walk_unaccessible = Walk_reached l sp st \<longrightarrow> reachable g orig cur)"
    by (auto simp: pred_total_def)
qed auto

section \<open>What the reconstruction prints after a search\<close>

lemma reconstruct_after_search:
  assumes wf: "wf_graph g" and run: "dijkstra g orig dest anim s = (Inr k, s1)" and ne: "orig \<noteq> dest"
  shows "\<exists>r s2. reconstruct_path g orig dest anim' alg s1 = Some (r, s2) \<and>
           (reachable g orig dest \<longrightarrow> (\<exists>km avg t. r = Inr (Route km avg t))) \<and>
           (\<not> reachable g orig dest \<longrightarrow> r = Inr Unaccessible_goal)"
proof -
  let ?S = "recon_start g s1"
  have dest: "dest \<in> set (g_nodes g)" using dijkstra_Inr_loop [OF run] by simp
  have inv: "pred_inv g (previous ?S) (distance ?S)"
    using pred_inv_after_dijkstra [OF wf, of orig dest anim s] run by simp
  have tot: "pred_total g orig (previous ?S) (distance ?S)"
    using dijkstra_pred_total [OF run] by simp
  have res: "search_result g orig dest s1" by (rule search_result_after_dijkstra [OF wf run])
  obtain w sw where w: "walk g orig anim' alg dest 0 [] 0 ?S = Some (w, sw)"
    and ok: "\<forall>e. w \<noteq> Walk_error e"
      "\<forall>l sp st. w = Walk_reached l sp st \<longrightarrow> (\<forall>x \<in> set sp. 0 < x) \<and> (sp = [] \<longleftrightarrow> dest = orig)"
    using walk_no_error [OF wf inv dest, of orig anim' alg] by blast
  from walk_outcome [OF inv tot, of anim' alg dest 0 "[]" 0] w
  have out: "w = Walk_unaccessible \<longrightarrow> distance s1 dest = Inf"
    "\<forall>l sp st. w = Walk_reached l sp st \<longrightarrow> reachable g orig dest"
    by auto
  show ?thesis
  proof (cases w)
    case (Walk_error e)
    with ok show ?thesis by simp
  next
    case Walk_unaccessible
    with out have "distance s1 dest = Inf" by simp
    with res have "\<not> reachable g orig dest" by (auto simp: search_result_def)
    with w Walk_unaccessible show ?thesis by (simp add: reconstruct_path_def)
  next
    case (Walk_reached l sp st)
    with out have reach: "reachable g orig dest" by simp
    from ok Walk_reached ne have sp: "sp \<noteq> []" "\<forall>x \<in> set sp. 0 < x" by auto
    obtain rr s2 where rr: "route_report anim' l sp st sw = (rr, s2)" by (metis prod.exhaust)
    with route_report_Route [OF sp, of anim' l st sw] have "\<exists>km avg t. rr = Inr (Route km avg t)"
      by (metis fst_conv)
    moreover have "reconstruct_path g orig dest anim' alg s1 = Some (rr, s2)"
      using w Walk_reached rr by (simp add: reconstruct_path_def)
    ultimately show ?thesis using reach by blast
  qed
qed

text \<open>C4. On a well-formed graph, after \<open>dijkstra\<close> returns for distinct
  endpoints, \<open>reconstruct_path\<close> returns and prints a route exactly
  when the destination is reachable from the origin, and the unreachable message
  exactly when it is not.\<close>

theorem search_then_reconstruct:
  assumes wf: "wf_graph g" and run: "dijkstra g orig dest anim s = (Inr k, s1)" and ne: "orig \<noteq> dest"
  shows "\<exists>r s2. reconstruct_path g orig dest anim' alg s1 = Some (r, s2) \<and>
           (reachable g orig dest \<longrightarrow> (\<exists>km avg t. r = Inr (Route km avg t))) \<and>
           (\<not> reachable g orig dest \<longrightarrow> r = Inr Unaccessible_goal)"
  using reconstruct_after_search [OF assms] .

text \<open>C8. On a well-formed graph \<open>dijkstra\<close> raises
  \<open>KeyError\<close> exactly when an endpoint is not a node of the graph;
  otherwise it returns, and what it returns is the number of nodes it marked
  visited.\<close>

theorem dijkstra_result:
  assumes wf: "wf_graph g"
  shows "fst (dijkstra g orig dest anim s) =
           (if orig \<in> set (g_nodes g) \<and> dest \<in> set (g_nodes g)
            then Inr (card {n \<in> set (g_nodes g). visited (snd (dijkstra g orig dest anim s)) n})
            else Inl KeyError)"
proof (cases "orig \<in> set (g_nodes g) \<and> dest \<in> set (g_nodes g)")
  case True
  then have nodes: "orig \<in> set (g_nodes g)" "dest \<in> set (g_nodes g)" by simp_all
  obtain k where k: "fst (dijkstra_loop g dest anim [(Fin 0, orig)] 0 (start_state g orig dest s)) = Inr k"
    using dijkstra_loop_Inr [OF wf nodes(1) dj_inv_start [OF wf nodes]] by blast
  have eq: "dijkstra g orig dest anim s = dijkstra_loop g dest anim [(Fin 0, orig)] 0 (start_state g orig dest s)"
    using True dijkstra_cases [of g orig dest anim s] by simp
  have "0 = card {n \<in> set (g_nodes g). visited (start_state g orig dest s) n}" by simp
  from dijkstra_loop_steps [OF this, of dest anim "[(Fin 0, orig)]" k] k
  have "k = card {n \<in> set (g_nodes g). visited (snd (dijkstra_loop g dest anim [(Fin 0, orig)] 0 (start_state g orig dest s))) n}"
    by simp
  with k True show ?thesis unfolding eq by simp
next
  case False
  then show ?thesis by (simp add: dijkstra_def Let_def)
qed

text \<open>C19. The search reaches every reachable destination: on a well-formed graph,
  for endpoints in the graph with the destination reachable, \<open>dijkstra\<close>
  returns in the \<open>found\<close> stage with the destination at its shortest
  distance.\<close>

theorem dijkstra_finds_reachable:
  assumes wf: "wf_graph g" and nodes: "orig \<in> set (g_nodes g)" "dest \<in> set (g_nodes g)"
    and reach: "reachable g orig dest"
  shows "\<exists>k s'. dijkstra g orig dest anim s = (Inr k, s') \<and> stage s' = Found \<and>
           (\<exists>d. distance s' dest = Fin d \<and> shortest g orig dest d)"
proof -
  obtain k s' where run: "dijkstra g orig dest anim s = (Inr k, s')"
    using dijkstra_returns [OF wf nodes] by blast
  have "search_result g orig dest s'" by (rule search_result_after_dijkstra [OF wf run])
  with reach have "stage s' = Found" "\<exists>d. distance s' dest = Fin d \<and> shortest g orig dest d"
    by (auto simp: search_result_def)
  with run show ?thesis by blast
qed

end
