(* ===== verification/Clean.thy ===== *)
theory Clean
  imports Graph
begin

text \<open>
  Speed cleaning, \<open>src/main.py\<close> lines 26--37: the loop over
  \<open>G.edges(keys=True, data=True)\<close> that replaces each edge's raw \<open>maxspeed\<close>
  tag (absent, a string such as \<open>"50"\<close> or \<open>"30 mph"\<close>, or a list of such
  strings where osmnx merged ways) by an integer, default \<open>60\<close>, and stores
  \<open>weight = length / maxspeed\<close>. The result is the \<open>graph\<close> of Graph.thy; the
  exceptions the loop can raise (\<open>int('')\<close>, \<open>min([])\<close>, a limit of \<open>0\<close>) are
  values of \<open>error\<close>.

  Characters are Isabelle's 8-bit \<open>char\<close>, read as Latin-1. On that range
  \<open>str.isdigit\<close> holds for the ASCII digits and for the superscripts
  \<open>\<^sup>1\<close>, \<open>\<^sup>2\<close>, \<open>\<^sup>3\<close> (code points 185, 178, 179), which \<open>int\<close> then
  rejects. \<open>int\<close> is modelled on the strings the script passes it, strings of
  \<open>isdigit\<close> characters: it parses a non-empty string of ASCII digits and
  raises \<open>ValueError\<close> otherwise.
\<close>

section \<open>Raw edge data\<close>

text \<open>The values the \<open>maxspeed\<close> tag takes: an \<open>int\<close> (kept as it is), a string,
  or a list of strings.\<close>

datatype speed_attr = SInt int | SStr string | SList "string list"

record raw_edata =
  r_length :: real
  r_maxspeed :: "speed_attr option"

record raw_graph =
  rg_nodes :: "node list"
  rg_edges :: "(edge \<times> raw_edata) list"

section \<open>Parsing a speed limit\<close>

definition py_isdigit :: "char \<Rightarrow> bool" where
  "py_isdigit c \<longleftrightarrow> ((48::nat) \<le> of_char c \<and> of_char c \<le> (57::nat)) \<or> of_char c \<in> {178, 179, 185::nat}"

definition ascii_digit :: "char \<Rightarrow> bool" where
  "ascii_digit c \<longleftrightarrow> (48::nat) \<le> of_char c \<and> of_char c \<le> (57::nat)"

text \<open>The value of a string of decimal digits, most significant first.\<close>

definition digits_value :: "string \<Rightarrow> int" where
  "digits_value s = foldl (\<lambda>n c. 10 * n + (of_char c - 48)) 0 s"

text \<open>\<open>int(s)\<close> for a string of \<open>isdigit\<close> characters.\<close>

definition py_int :: "string \<Rightarrow> error + int" where
  "py_int s = (if s \<noteq> [] \<and> list_all ascii_digit s then Inr (digits_value s) else Inl ValueError)"

text \<open>\<open>int(''.join(filter(str.isdigit, s)))\<close> (lines 32 and 34).\<close>

definition speed_of_str :: "string \<Rightarrow> error + int" where
  "speed_of_str s = py_int (filter py_isdigit s)"

text \<open>The list comprehension of line 32, evaluated left to right: the first
  element that fails raises.\<close>

fun speeds_of_list :: "string list \<Rightarrow> error + int list" where
  "speeds_of_list [] = Inr []"
| "speeds_of_list (s # ss) =
     (case speed_of_str s of
        Inl e \<Rightarrow> Inl e
      | Inr v \<Rightarrow> (case speeds_of_list ss of Inl e \<Rightarrow> Inl e | Inr vs \<Rightarrow> Inr (v # vs)))"

text \<open>\<open>min\<close> of a list of ints; \<open>ValueError\<close> on the empty list.\<close>

definition py_min :: "int list \<Rightarrow> error + int" where
  "py_min vs = (if vs = [] then Inl ValueError else Inr (Min (set vs)))"

text \<open>Lines 28--36: the cleaned speed limit of one edge.\<close>

fun clean_maxspeed :: "speed_attr option \<Rightarrow> error + int" where
  "clean_maxspeed None = Inr 60"
| "clean_maxspeed (Some (SList ss)) = (case speeds_of_list ss of Inl e \<Rightarrow> Inl e | Inr vs \<Rightarrow> py_min vs)"
| "clean_maxspeed (Some (SStr s)) = speed_of_str s"
| "clean_maxspeed (Some (SInt n)) = Inr n"

text \<open>Lines 36--37: store the limit and \<open>weight = length / maxspeed\<close>, a float
  division that raises on a limit of \<open>0\<close>.\<close>

definition clean_edge :: "raw_edata \<Rightarrow> error + edata" where
  "clean_edge d =
     (case clean_maxspeed (r_maxspeed d) of
        Inl e \<Rightarrow> Inl e
      | Inr ms \<Rightarrow>
          if ms = 0 then Inl ZeroDivisionError
          else Inr \<lparr>e_length = r_length d, e_maxspeed = of_int ms, e_weight = r_length d / of_int ms\<rparr>)"

text \<open>The loop of line 27, over the edges in iteration order; the first edge that
  raises stops the script.\<close>

fun clean_edges :: "(edge \<times> raw_edata) list \<Rightarrow> error + (edge \<times> edata) list" where
  "clean_edges [] = Inr []"
| "clean_edges ((e, d) # es) =
     (case clean_edge d of
        Inl err \<Rightarrow> Inl err
      | Inr d' \<Rightarrow> (case clean_edges es of Inl err \<Rightarrow> Inl err | Inr es' \<Rightarrow> Inr ((e, d') # es')))"

definition clean_graph :: "raw_graph \<Rightarrow> error + graph" where
  "clean_graph rg =
     (case clean_edges (rg_edges rg) of
        Inl e \<Rightarrow> Inl e
      | Inr es \<Rightarrow> Inr \<lparr>g_nodes = rg_nodes rg, g_edges = es\<rparr>)"

text \<open>What osmnx guarantees of the raw graph: distinct nodes and edge ids, edges
  between nodes, positive lengths, key \<open>0\<close> for the first parallel edge; and
  an \<open>int\<close> tag, which osmnx itself never produces, is positive.\<close>

definition raw_wf :: "raw_graph \<Rightarrow> bool" where
  "raw_wf rg \<longleftrightarrow>
     distinct (rg_nodes rg) \<and> distinct (map fst (rg_edges rg)) \<and>
     list_all (\<lambda>((u, v, k), d). u \<in> set (rg_nodes rg) \<and> v \<in> set (rg_nodes rg) \<and> 0 < r_length d \<and>
                 (u, v, 0) \<in> set (map fst (rg_edges rg)) \<and> (\<forall>n. r_maxspeed d = Some (SInt n) \<longrightarrow> 0 < n))
       (rg_edges rg)"

text \<open>Decimal printing, the inverse the parser is checked against.\<close>

definition digit_char :: "nat \<Rightarrow> char" where
  "digit_char d = ''0123456789'' ! d"

fun show_nat :: "nat \<Rightarrow> string" where
  "show_nat n = (if n < 10 then [digit_char n] else show_nat (n div 10) @ [digit_char (n mod 10)])"

declare show_nat.simps [simp del]

section \<open>Lemmas\<close>

lemma digits_value_append [simp]:
  "digits_value (xs @ ys) = foldl (\<lambda>n c. 10 * n + (of_char c - 48)) (digits_value xs) ys"
  by (simp add: digits_value_def)

lemma digits_value_snoc:
  "digits_value (xs @ [c]) = 10 * digits_value xs + (of_char c - 48)"
  by simp

lemma of_char_digit:
  assumes "d < 10"
  shows "(of_char (digit_char d) :: int) = 48 + int d" "(of_char (digit_char d) :: nat) = 48 + d"
proof -
  have "d \<in> {0, 1, 2, 3, 4, 5, 6, 7, 8, 9}" using assms by auto
  then show "(of_char (digit_char d) :: nat) = 48 + d" by (auto simp: digit_char_def)
  then show "(of_char (digit_char d) :: int) = 48 + int d" by (metis of_nat_of_char of_nat_add of_nat_numeral)
qed

lemma show_nat_digits: "show_nat n \<noteq> [] \<and> list_all ascii_digit (show_nat n) \<and> list_all py_isdigit (show_nat n)"
proof (induction n rule: show_nat.induct)
  case (1 n)
  have "ascii_digit (digit_char d)" "py_isdigit (digit_char d)" if "d < 10" for d :: nat
    using of_char_digit(2) [OF that] that by (simp_all add: ascii_digit_def py_isdigit_def)
  with 1 show ?case unfolding show_nat.simps [of n] by simp
qed

lemma show_nat_value: "digits_value (show_nat n) = int n"
proof (induction n rule: show_nat.induct)
  case (1 n)
  show ?case
  proof (cases "n < 10")
    case True
    then show ?thesis by (subst show_nat.simps) (simp add: digits_value_def of_char_digit)
  next
    case False
    have "int n = 10 * int (n div 10) + int (n mod 10)" by presburger
    with 1 False show ?thesis by (subst show_nat.simps) (simp add: of_char_digit)
  qed
qed

lemma foldl_digits_acc:
  "foldl (\<lambda>n c. 10 * n + (of_char c - 48)) acc xs = 10 ^ length xs * acc + digits_value xs"
proof (induction xs arbitrary: acc rule: rev_induct)
  case Nil
  then show ?case by (simp add: digits_value_def)
next
  case (snoc x xs)
  then show ?case by (simp add: algebra_simps)
qed

lemma digits_value_nonneg: "list_all ascii_digit s \<Longrightarrow> 0 \<le> digits_value s"
proof (induction s rule: rev_induct)
  case Nil
  then show ?case by (simp add: digits_value_def)
next
  case (snoc c s)
  then have "(48::int) \<le> of_char c"
    by (simp add: ascii_digit_def) (metis of_nat_numeral of_nat_le_iff of_nat_of_char)
  with snoc show ?case by simp
qed

lemma filter_py_isdigit_id: "list_all py_isdigit s \<Longrightarrow> filter py_isdigit s = s"
  by (simp add: list_all_iff)

lemma filter_py_isdigit_none: "\<not> list_ex py_isdigit s \<Longrightarrow> filter py_isdigit s = []"
  by (simp add: list_ex_iff filter_empty_conv)

lemma py_int_nonneg: "py_int s = Inr v \<Longrightarrow> 0 \<le> v"
  by (auto simp: py_int_def digits_value_nonneg split: if_splits)

lemma speed_of_str_nonneg: "speed_of_str s = Inr v \<Longrightarrow> 0 \<le> v"
  by (simp add: speed_of_str_def py_int_nonneg)

lemma speeds_of_list_nonneg: "speeds_of_list ss = Inr vs \<Longrightarrow> \<forall>v \<in> set vs. 0 \<le> v"
  by (induction ss arbitrary: vs)
     (auto simp: speed_of_str_nonneg split: sum.splits)

lemma py_min_mem: "py_min vs = Inr m \<Longrightarrow> m \<in> set vs"
  by (auto simp: py_min_def split: if_splits)

lemma clean_maxspeed_nonneg:
  "(\<forall>n. a = Some (SInt n) \<longrightarrow> 0 < n) \<Longrightarrow> clean_maxspeed a = Inr ms \<Longrightarrow> 0 \<le> ms"
proof (induction a rule: clean_maxspeed.induct)
  case (2 ss)
  then obtain vs where "speeds_of_list ss = Inr vs" "py_min vs = Inr ms" by (auto split: sum.splits)
  then show ?case using speeds_of_list_nonneg py_min_mem by blast
qed (auto intro: speed_of_str_nonneg)

lemma clean_edge_Inr:
  assumes "clean_edge d = Inr d'" "\<forall>n. r_maxspeed d = Some (SInt n) \<longrightarrow> 0 < n" "0 < r_length d"
  shows "e_length d' = r_length d \<and> 0 < e_maxspeed d' \<and> 0 < e_weight d'"
proof -
  obtain ms where ms: "clean_maxspeed (r_maxspeed d) = Inr ms" "ms \<noteq> 0"
    and d': "d' = \<lparr>e_length = r_length d, e_maxspeed = of_int ms, e_weight = r_length d / of_int ms\<rparr>"
    using assms(1) by (auto simp: clean_edge_def split: sum.splits if_splits)
  have "0 < ms" using clean_maxspeed_nonneg [OF assms(2) ms(1)] ms(2) by simp
  with d' assms(3) show ?thesis by simp
qed

lemma clean_edges_Inr:
  "clean_edges es = Inr es' \<Longrightarrow> list_all2 (\<lambda>(e, d) (e', d'). e' = e \<and> clean_edge d = Inr d') es es'"
  by (induction es arbitrary: es' rule: clean_edges.induct) (auto split: sum.splits)

lemma list_all2_set_right: "list_all2 P xs ys \<Longrightarrow> y \<in> set ys \<Longrightarrow> \<exists>x \<in> set xs. P x y"
  by (induction rule: list_all2_induct) auto

lemma clean_edges_fst: "clean_edges es = Inr es' \<Longrightarrow> map fst es' = map fst es"
proof -
  assume "clean_edges es = Inr es'"
  then have "list_all2 (\<lambda>(e, d) (e', d'). e' = e \<and> clean_edge d = Inr d') es es'" by (rule clean_edges_Inr)
  then show ?thesis by (induction rule: list_all2_induct) auto
qed

text \<open>C11. Parsing a speed tag inverts decimal printing: a number printed in decimal,
  with any text without digits before and after it (a unit such as
  \<open>km/h\<close> or \<open>mph\<close>), is read back as that number.\<close>

theorem speed_of_str_show_nat:
  assumes "\<not> list_ex py_isdigit p" "\<not> list_ex py_isdigit t"
  shows "speed_of_str (p @ show_nat n @ t) = Inr (int n)"
proof -
  have "filter py_isdigit (p @ show_nat n @ t) = show_nat n"
    using assms show_nat_digits filter_py_isdigit_id filter_py_isdigit_none by simp
  then show ?thesis using show_nat_digits show_nat_value by (simp add: speed_of_str_def py_int_def)
qed

text \<open>C12. A tag holding two limits separated by a non-digit (the OpenStreetMap
  multi-value form \<open>50;30\<close>) is read as the single number formed by
  concatenating their digits.\<close>

theorem speed_of_str_joins_values:
  assumes "\<not> py_isdigit c"
  shows "speed_of_str (show_nat a @ c # show_nat b) = Inr (int a * 10 ^ length (show_nat b) + int b)"
proof -
  have "filter py_isdigit (show_nat a @ c # show_nat b) = show_nat a @ show_nat b"
    using assms show_nat_digits filter_py_isdigit_id by simp
  moreover have "digits_value (show_nat a @ show_nat b) = int a * 10 ^ length (show_nat b) + int b"
    by (simp add: foldl_digits_acc show_nat_value)
  ultimately show ?thesis using show_nat_digits by (simp add: speed_of_str_def py_int_def)
qed

lemma cleaned_graph_wf:
  assumes wf: "raw_wf rg" and cl: "clean_graph rg = Inr g"
  shows "wf_graph g"
proof -
  obtain es where es: "clean_edges (rg_edges rg) = Inr es" and g: "g = \<lparr>g_nodes = rg_nodes rg, g_edges = es\<rparr>"
    using cl by (auto simp: clean_graph_def split: sum.splits)
  have rel: "list_all2 (\<lambda>(e, d) (e', d'). e' = e \<and> clean_edge d = Inr d') (rg_edges rg) es"
    using es by (rule clean_edges_Inr)
  have fst_eq: "map fst es = map fst (rg_edges rg)" using es by (rule clean_edges_fst)
  have "u \<in> set (rg_nodes rg) \<and> v \<in> set (rg_nodes rg) \<and> 0 < e_weight d' \<and> 0 < e_maxspeed d' \<and>
        (u, v, 0) \<in> set (map fst es)"
    if mem: "((u, v, k), d') \<in> set es" for u v k d'
  proof -
    obtain x where x: "x \<in> set (rg_edges rg)" "(\<lambda>(e, d) (e', d'). e' = e \<and> clean_edge d = Inr d') x ((u, v, k), d')"
      using list_all2_set_right [OF rel mem] by blast
    obtain d where xd: "x = ((u, v, k), d)" and cd: "clean_edge d = Inr d'" using x(2) by (cases x) auto
    have raw: "u \<in> set (rg_nodes rg)" "v \<in> set (rg_nodes rg)" "0 < r_length d"
      "(u, v, 0) \<in> set (map fst (rg_edges rg))" "\<forall>n. r_maxspeed d = Some (SInt n) \<longrightarrow> 0 < n"
      using wf x(1) xd by (auto simp: raw_wf_def list_all_iff)
    with clean_edge_Inr [OF cd raw(5,3)] fst_eq show ?thesis by simp
  qed
  moreover have "distinct (rg_nodes rg)" "distinct (map fst es)"
    using wf fst_eq by (simp_all add: raw_wf_def)
  ultimately show ?thesis
    unfolding g wf_graph_def list_all_iff by auto
qed

lemma clean_graph_nodes: "clean_graph rg = Inr g \<Longrightarrow> g_nodes g = rg_nodes rg"
  by (auto simp: clean_graph_def split: sum.splits)

text \<open>C10. The cleaning loop establishes the search's precondition: when it accepts a
  raw graph, every edge of the result has a positive speed limit and a positive
  weight, so the graph is well formed.\<close>

theorem clean_graph_wf:
  assumes "raw_wf rg" "clean_graph rg = Inr g"
  shows "wf_graph g"
  using cleaned_graph_wf [OF assms] .

text \<open>One edge whose tag cannot be cleaned makes the cleaning loop raise.\<close>

lemma clean_edges_Inl:
  "(x, d) \<in> set es \<Longrightarrow> clean_edge d = Inl e' \<Longrightarrow> \<exists>e. clean_edges es = Inl e"
proof (induction es rule: clean_edges.induct)
  case 1
  then show ?case by simp
next
  case (2 y d' es)
  then show ?case by (cases "clean_edge d'") (auto split: sum.splits)
qed

text \<open>A tag with no digit (\<open>none\<close>, \<open>signals\<close>, \<open>walk\<close>) makes \<open>int('')\<close> raise.\<close>

lemma speed_of_str_no_digit: "\<not> list_ex py_isdigit t \<Longrightarrow> speed_of_str t = Inl ValueError"
  by (simp add: speed_of_str_def filter_py_isdigit_none py_int_def)

end
