(* ===== verification/Script.thy ===== *)
theory Script
  imports Route Clean
begin

text \<open>
  The main script, \<open>src/main.py\<close>: the globals of lines 9--25 (\<open>stage =
  "finding"\<close>, \<open>frame_count = 0\<close>, the attributes unset: \<open>init_gstate\<close>), the
  cleaning loop (lines 26--37), the \<open>ValueError\<close> that the rendering set-up
  raises on a graph without nodes (\<open>min()\<close> of an empty sequence, line 92;
  \<open>axis_limits\<close> in \<open>Render\<close>), and the calls of lines 249--250:
  \<open>dijkstra(start, end, isAnimate=animation)\<close> then
  \<open>reconstruct_path(start, end, isAnimate=animation)\<close> with no algorithm
  name. \<open>start\<close> and \<open>end\<close> come from \<open>random.choice(list(G.nodes))\<close>; the model
  takes them as parameters, and its theorems hold for every choice of nodes.
  The result is what the script prints last, or the exception that stops it.
\<close>

section \<open>Definitions\<close>

definition run_script ::
  "raw_graph \<Rightarrow> node \<Rightarrow> node \<Rightarrow> bool \<Rightarrow> ((error + recon_out) \<times> gstate) option" where
  "run_script rg start goal anim =
     (case clean_graph rg of
        Inl e \<Rightarrow> Some (Inl e, init_gstate)
      | Inr g \<Rightarrow>
          if g_nodes g = [] then Some (Inl ValueError, init_gstate)
          else (case dijkstra g start goal anim init_gstate of
                  (Inl e, s) \<Rightarrow> Some (Inl e, s)
                | (Inr k, s) \<Rightarrow> reconstruct_path g start goal anim None s))"

section \<open>The script's outcome\<close>

text \<open>C14. A raw graph in which some edge carries a speed tag without any digit,
  such as the common OpenStreetMap values \<open>none\<close>, \<open>signals\<close> or \<open>walk\<close>,
  stops the script in the cleaning loop: it raises before the search starts,
  whatever the endpoints, and saves no frame.\<close>

theorem digitless_tag_stops_script:
  assumes "(x, d) \<in> set (rg_edges rg)" "r_maxspeed d = Some (SStr t)" "\<not> list_ex py_isdigit t"
  shows "\<exists>e. run_script rg start goal anim = Some (Inl e, init_gstate)"
proof -
  have "clean_edge d = Inl ValueError"
    using assms(2,3) by (simp add: clean_edge_def speed_of_str_no_digit)
  then obtain e where "clean_edges (rg_edges rg) = Inl e" using clean_edges_Inl [OF assms(1)] by blast
  then show ?thesis by (simp add: run_script_def clean_graph_def)
qed

text \<open>C9. For every raw graph that osmnx can deliver and that the cleaning loop
  accepts, and for every choice of start and end node, the script ends: it
  raises \<open>ZeroDivisionError\<close> when the two nodes coincide, prints a
  route when the end is reachable from the start, and the unreachable message
  otherwise.\<close>

theorem script_outcome:
  assumes raw: "raw_wf rg" and cl: "clean_graph rg = Inr g"
    and nodes: "start \<in> set (rg_nodes rg)" "goal \<in> set (rg_nodes rg)"
  shows "\<exists>r s. run_script rg start goal anim = Some (r, s) \<and>
           (start = goal \<longrightarrow> r = Inl ZeroDivisionError) \<and>
           (start \<noteq> goal \<longrightarrow> (reachable g start goal \<longrightarrow> (\<exists>km avg t. r = Inr (Route km avg t))) \<and>
                            (\<not> reachable g start goal \<longrightarrow> r = Inr Unaccessible_goal))"
proof -
  have wf: "wf_graph g" by (rule cleaned_graph_wf [OF raw cl])
  have gn: "start \<in> set (g_nodes g)" "goal \<in> set (g_nodes g)" using nodes clean_graph_nodes [OF cl] by simp_all
  obtain k s1 where run: "dijkstra g start goal anim init_gstate = (Inr k, s1)"
    using dijkstra_returns [OF wf gn] by blast
  have script: "run_script rg start goal anim = reconstruct_path g start goal anim None s1"
    using cl run gn by (auto simp: run_script_def)
  show ?thesis
  proof (cases "start = goal")
    case True
    then show ?thesis unfolding script
      by (simp add: reconstruct_path_def walk.simps [of g goal anim None goal] route_report_def)
  next
    case False
    from reconstruct_after_search [OF wf run False, of anim None] False show ?thesis
      unfolding script by blast
  qed
qed

end
