(* ===== verification/Video.thy ===== *)
theory Video
  imports Clean Sink "HOL-Library.List_Lexorder" "HOL-Library.Char_ord" "HOL-Library.Sublist"
begin

text \<open>
  The file names of the frames and the order in which the video encoder reads
  them. \<open>save_frame\<close> writes frame number \<open>n\<close> to
  \<open>frame_{n:05d}.png\<close> (line 122); \<open>generate_video\<close> (lines 228--237) lists the
  folder, keeps the names ending in \<open>.png\<close> and sorts them as Python sorts
  strings, by code point with a proper prefix first, which is the
  lexicographic order of HOL-Library's \<open>List_Lexorder\<close> on \<open>char\<close> lists.
  Writing the frames, reading them back and encoding are I/O and not
  modelled.
\<close>

section \<open>Definitions\<close>

text \<open>\<open>f"{n:05d}"\<close>: the decimal digits of \<open>n\<close>, padded with zeros on the left
  to at least five characters.\<close>

definition fmt05 :: "nat \<Rightarrow> string" where
  "fmt05 n = replicate (5 - length (show_nat n)) (CHR ''0'') @ show_nat n"

definition frame_name :: "nat \<Rightarrow> string" where
  "frame_name n = ''frame_'' @ fmt05 n @ ''.png''"

text \<open>\<open>sorted(f for f in os.listdir(frames_folder) if f.endswith(".png"))\<close>.\<close>

definition video_order :: "string list \<Rightarrow> string list" where
  "video_order names = sort (filter (\<lambda>f. suffix ''.png'' f) names)"

section \<open>Digit strings\<close>

lemma ascii_digit_int:
  "ascii_digit c \<Longrightarrow> 0 \<le> (of_char c :: int) - 48 \<and> (of_char c :: int) - 48 \<le> 9"
  by (simp add: ascii_digit_def) (metis of_nat_of_char of_nat_le_iff of_nat_numeral)

lemma digits_value_Cons:
  "digits_value (x # xs) = (of_char x - 48) * 10 ^ length xs + digits_value xs"
  using foldl_digits_acc [of "of_char x - 48" xs] by (simp add: digits_value_def)

lemma digits_value_bound:
  "list_all ascii_digit xs \<Longrightarrow> digits_value xs < 10 ^ length xs"
proof (induction xs rule: rev_induct)
  case Nil
  then show ?case by (simp add: digits_value_def)
next
  case (snoc c xs)
  then have "digits_value xs + 1 \<le> 10 ^ length xs" "(of_char c :: int) - 48 \<le> 9"
    using ascii_digit_int by auto
  then show ?case by simp
qed

lemma digits_value_zeros [simp]: "digits_value (replicate k (CHR ''0'') @ xs) = digits_value xs"
proof -
  have "digits_value (replicate k (CHR ''0'')) = 0"
    by (induction k) (simp_all add: digits_value_def)
  then show ?thesis by (simp add: foldl_digits_acc)
qed

text \<open>On digit strings of one length, the string order is the numeric order.\<close>

lemma digits_less:
  "length xs = length ys \<Longrightarrow> list_all ascii_digit xs \<Longrightarrow> list_all ascii_digit ys \<Longrightarrow>
   digits_value xs < digits_value ys \<Longrightarrow> xs < ys"
proof (induction xs arbitrary: ys)
  case Nil
  then show ?case by simp
next
  case (Cons x xs)
  obtain y ys' where ys: "ys = y # ys'" using Cons.prems(1) by (cases ys) auto
  let ?dx = "(of_char x :: int) - 48" and ?dy = "(of_char y :: int) - 48" and ?n = "length xs"
  have len: "length ys' = ?n" using Cons.prems(1) ys by simp
  have bx: "0 \<le> digits_value xs" "digits_value xs < 10 ^ ?n"
    using Cons.prems(2) digits_value_nonneg digits_value_bound by auto
  have by': "0 \<le> digits_value ys'" "digits_value ys' < 10 ^ ?n"
    using Cons.prems(3) ys digits_value_nonneg [of ys'] digits_value_bound [of ys'] len by auto
  have lt: "?dx * 10 ^ ?n + digits_value xs < ?dy * 10 ^ ?n + digits_value ys'"
    using Cons.prems(4) ys len by (simp add: digits_value_Cons)
  show ?case
  proof (cases "?dx < ?dy")
    case True
    then have "x < y" by (simp add: less_char_def) (metis of_nat_of_char of_nat_less_iff)
    then show ?thesis using ys by simp
  next
    case False
    have "\<not> ?dy < ?dx"
    proof
      assume "?dy < ?dx"
      then have "(?dy + 1) * 10 ^ ?n \<le> ?dx * 10 ^ ?n" by (simp add: mult_right_mono)
      with lt bx by' show False by (simp add: algebra_simps)
    qed
    with False have "of_char x = (of_char y :: int)" by simp
    then have xy: "x = y" by (metis char_of_char of_nat_of_char of_nat_eq_iff)
    with lt have "digits_value xs < digits_value ys'" by simp
    with Cons.IH [of ys'] Cons.prems len ys have "xs < ys'" by simp
    with xy ys show ?thesis by simp
  qed
qed

lemma show_nat_length_le: "n < 10 ^ k \<Longrightarrow> 0 < k \<Longrightarrow> length (show_nat n) \<le> k"
proof (induction n arbitrary: k rule: show_nat.induct)
  case (1 n)
  show ?case
  proof (cases "n < 10")
    case True
    with "1.prems" show ?thesis by (subst show_nat.simps) simp
  next
    case False
    then obtain k' where k: "k = Suc k'" using "1.prems" by (cases k) auto
    have "0 < k'" using False "1.prems" k by (cases k') auto
    moreover have "n div 10 < 10 ^ k'" using "1.prems"(1) k by simp
    ultimately have "length (show_nat (n div 10)) \<le> k'" using "1.IH" False by blast
    with False k show ?thesis unfolding show_nat.simps [of n] by simp
  qed
qed

lemma fmt05_digits:
  assumes "n < 100000"
  shows "length (fmt05 n) = 5 \<and> list_all ascii_digit (fmt05 n) \<and> digits_value (fmt05 n) = int n"
proof -
  have "length (show_nat n) \<le> 5" using show_nat_length_le [of n 5] assms by simp
  moreover have "ascii_digit (CHR ''0'')" by (simp add: ascii_digit_def)
  ultimately show ?thesis using show_nat_digits [of n] show_nat_value [of n]
    by (simp add: fmt05_def list_all_iff set_replicate_conv_if del: digits_value_append)
qed

lemma frame_name_mono:
  assumes "m < n" "n < 100000"
  shows "frame_name m < frame_name n"
proof -
  have "fmt05 m < fmt05 n"
    using fmt05_digits [of m] fmt05_digits [of n] assms by (intro digits_less) simp_all
  then have "(fmt05 m @ ''.png'', fmt05 n @ ''.png'') \<in> lexord {(u, v). u < v}"
    using fmt05_digits [of m] fmt05_digits [of n] assms by (intro lexord_sufI) (simp_all add: list_less_def)
  then show ?thesis unfolding frame_name_def list_less_def by (rule lexord_append_leftI)
qed

lemma frame_names_sorted:
  "N \<le> 100000 \<Longrightarrow> sorted (map frame_name [0..<N])"
  unfolding sorted_iff_nth_mono_less by (simp add: less_imp_le frame_name_mono)

lemma video_order_frame_names:
  assumes "N \<le> 100000"
  shows "video_order (map frame_name [0..<N]) = map frame_name [0..<N]"
proof -
  have "suffix ''.png'' (frame_name n)" for n by (simp add: frame_name_def suffix_def)
  then have "filter (\<lambda>f. suffix ''.png'' f) (map frame_name [0..<N]) = map frame_name [0..<N]" by simp
  with frame_names_sorted [OF assms] show ?thesis by (simp add: video_order_def sorted_sort_id)
qed

text \<open>C16. The encoder plays the frames of a run in the order they were written as
  long as there are at most 100000 of them: sorting the names
  \<open>frame_00000.png\<close>, \<open>frame_00001.png\<close>, \<dots> as strings leaves them in
  numeric order.\<close>

theorem video_plays_in_order:
  assumes "N \<le> 100000"
  shows "video_order (map frame_name [0..<N]) = map frame_name [0..<N]"
  using video_order_frame_names [OF assms] .

lemma frame_name_99999_100000: "frame_name 100000 < frame_name 99999"
proof -
  have "frame_name 100000 = ''frame_100000.png''" "frame_name 99999 = ''frame_99999.png''"
    by (simp_all add: frame_name_def fmt05_def show_nat.simps digit_char_def)
  then show ?thesis by (simp add: less_char_def)
qed

text \<open>C17. The bound is exact: every animation of more than 100000 frames is
  encoded out of order, since the name of frame 100000 has six digits and sorts
  before that of frame 99999.\<close>

theorem video_out_of_order_beyond_bound:
  assumes "100000 < N"
  shows "video_order (map frame_name [0..<N]) \<noteq> map frame_name [0..<N]"
proof
  assume eq: "video_order (map frame_name [0..<N]) = map frame_name [0..<N]"
  have "sorted (video_order (map frame_name [0..<N]))" by (simp add: video_order_def)
  then have "sorted (map frame_name [0..<N])" by (simp only: eq)
  then have "map frame_name [0..<N] ! 99999 \<le> map frame_name [0..<N] ! 100000"
    using assms by (intro sorted_nth_mono) simp_all
  with assms have "frame_name 99999 \<le> frame_name 100000" by simp
  with frame_name_99999_100000 show False by simp
qed

end
