(* ===== verification/Frames.thy ===== *)
theory Frames
  imports Script Video
begin

text \<open>
  The frame files of a whole run of the script. \<open>save_frame\<close> is the only
  operation that writes a file or changes \<open>frame_count\<close>; the search and the
  reconstruction call it from their loops. Over a run the files written are
  numbered \<open>0, 1, \<dots>\<close> without gap or repetition, and while there are at most
  100000 of them the encoder, which sorts their names, plays them in the
  order they were written.
\<close>

section \<open>Frame numbering through the search\<close>

lemma frames_numbered_fields [simp]:
  "frames_numbered (s\<lparr>visited := V\<rparr>) = frames_numbered s"
  "frames_numbered (s\<lparr>distance := D\<rparr>) = frames_numbered s"
  "frames_numbered (s\<lparr>stage := st\<rparr>) = frames_numbered s"
  "frames_numbered (style_edge st' e s) = frames_numbered s"
  "frames_numbered (style_start_end n s) = frames_numbered s"
  "frames_numbered (reset_nodes g s) = frames_numbered s"
  by (simp_all add: frames_numbered_def style_edge_def style_start_end_def)

lemma relax_edges_numbered:
  "frames_numbered (snd (relax_edges g node es pq s)) = frames_numbered s"
  by (simp add: frames_numbered_def)

lemma found_frames_numbered:
  "frames_numbered s \<Longrightarrow> frames_numbered (found_frames anim step s)"
  by (auto simp: found_frames_def)

lemma dijkstra_loop_numbered:
  assumes "frames_numbered s"
  shows "frames_numbered (snd (dijkstra_loop g dest anim pq step s))"
proof (rule dijkstra_loop_rule [where I = "\<lambda>pq step s. frames_numbered s" and R = "\<lambda>r s'. frames_numbered s'"])
  fix pq step d node pq' pq'' and s s' :: gstate
  assume "frames_numbered s"
    and r: "relax_edges g node (out_edges g node) pq' (s\<lparr>visited := (visited s)(node := True)\<rparr>) = (pq'', s')"
  then have "frames_numbered s'"
    using relax_edges_numbered [of g node "out_edges g node" pq' "s\<lparr>visited := (visited s)(node := True)\<rparr>"]
    by simp
  then show "frames_numbered (if anim then save_frame step s' else s')" by auto
qed (use assms in \<open>auto intro: found_frames_numbered\<close>)

lemma dijkstra_numbered:
  "frames_numbered s \<Longrightarrow> frames_numbered (snd (dijkstra g orig dest anim s))"
  by (auto simp: dijkstra_def Let_def intro!: dijkstra_loop_numbered frames_numbered_style_edges)

section \<open>Frame numbering through the reconstruction\<close>

lemma mark_path_edges_frames [simp]:
  "frames (mark_path_edges g alg u v s) = frames s"
  "frame_count (mark_path_edges g alg u v s) = frame_count s"
proof -
  have "frames (fold (mark_path_edge alg) es s) = frames s \<and>
        frame_count (fold (mark_path_edge alg) es s) = frame_count s" for es
    by (induction es arbitrary: s)
       (simp_all add: mark_path_edge_def style_edge_def Let_def split: option.splits)
  then show "frames (mark_path_edges g alg u v s) = frames s"
    "frame_count (mark_path_edges g alg u v s) = frame_count s"
    by (simp_all add: mark_path_edges_def)
qed

lemma walk_numbered:
  assumes inv: "pred_inv g (previous s) (distance s)" and num: "frames_numbered s"
  shows "\<exists>r s'. walk g orig anim alg cur len_sum speeds step s = Some (r, s') \<and> frames_numbered s'"
  by (rule walk_rule [where I = "\<lambda>c l sp st s. frames_numbered s" and Q = "\<lambda>r s. frames_numbered s", OF inv])
     (use num in \<open>auto simp: frames_numbered_def save_frame_def\<close>)

lemma reconstruct_path_numbered:
  assumes inv: "pred_inv g (previous s) (distance s)" and num: "frames_numbered s"
  shows "\<exists>r s'. reconstruct_path g orig dest anim alg s = Some (r, s') \<and> frames_numbered s'"
proof -
  have "pred_inv g (previous (recon_start g s)) (distance (recon_start g s))" "frames_numbered (recon_start g s)"
    using inv num by (simp_all add: frames_numbered_def)
  from walk_numbered [OF this, of orig anim alg dest 0 "[]" 0]
  obtain w s' where w: "walk g orig anim alg dest 0 [] 0 (recon_start g s) = Some (w, s')" "frames_numbered s'"
    by blast
  then show ?thesis
    by (cases w) (auto simp: reconstruct_path_def route_report_def Let_def)
qed

section \<open>A whole run\<close>

lemma init_numbered [simp]: "frames_numbered init_gstate"
  by (simp add: frames_numbered_def init_gstate_def)

lemma run_script_numbered:
  assumes "raw_wf rg" "run_script rg start goal anim = Some (r, s)"
  shows "frames_numbered s"
proof (cases "clean_graph rg")
  case (Inl e)
  with assms show ?thesis by (simp add: run_script_def)
next
  case (Inr g)
  have wf: "wf_graph g" by (rule cleaned_graph_wf [OF assms(1) Inr])
  obtain x s1 where run: "dijkstra g start goal anim init_gstate = (x, s1)" by (metis prod.exhaust)
  have num: "frames_numbered s1" using dijkstra_numbered [OF init_numbered, of g start goal anim] run by simp
  have inv: "pred_inv g (previous s1) (distance s1)"
    using pred_inv_after_dijkstra [OF wf, of start goal anim init_gstate] run by simp
  show ?thesis
  proof (cases x)
    case (Inl e)
    with assms(2) Inr run num show ?thesis by (auto simp: run_script_def split: if_splits)
  next
    case (Inr k)
    from reconstruct_path_numbered [OF inv num, of start goal anim None] assms(2) \<open>clean_graph rg = Inr g\<close> run Inr
    show ?thesis by (auto simp: run_script_def split: if_splits)
  qed
qed

text \<open>C15. Whatever the script prints or raises, the frame files it has written
  are numbered \<open>0, 1, \<dots>\<close> without gap or repetition, \<open>frame_count\<close> being
  their number, and while there are at most 100000 of them, the order in
  which \<open>generate_video\<close> reads them (sorted names) is the order in which they
  were written.\<close>

theorem script_frames_in_order:
  assumes "raw_wf rg" "run_script rg start goal anim = Some (r, s)" "frame_count s \<le> 100000"
  shows "map fst (frames s) = [0..<frame_count s] \<and>
         video_order (map (frame_name \<circ> fst) (frames s)) = map (frame_name \<circ> fst) (frames s)"
proof -
  have num: "map fst (frames s) = [0..<frame_count s]"
    using run_script_numbered [OF assms(1,2)] by (simp add: frames_numbered_def)
  then have "map (frame_name \<circ> fst) (frames s) = map frame_name [0..<frame_count s]"
    by (metis map_map)
  with num video_order_frame_names [OF assms(3)] show ?thesis by simp
qed

end
