(* ===== verification/Rerun.thy ===== *)
theory Rerun
  imports Correctness
begin

text \<open>
  The script keeps the search's state on the graph (node attributes
  \<open>visited\<close>, \<open>distance\<close>, \<open>previous\<close>) and \<open>dijkstra\<close> resets them at its
  start (lines 132--136). This theory shows the reset is complete: the
  outcome of a search, and the attributes it leaves on the graph's nodes, do
  not depend on what an earlier run left behind, so searches can be repeated
  on the same graph (to compare endpoints or algorithms).
\<close>

section \<open>Definitions\<close>

text \<open>Two states agree on the graph when they have the same stage and the same
  search attributes on every node of the graph.\<close>

definition agree :: "graph \<Rightarrow> gstate \<Rightarrow> gstate \<Rightarrow> bool" where
  "agree g s1 s2 \<longleftrightarrow> stage s1 = stage s2 \<and>
     (\<forall>v \<in> set (g_nodes g). visited s1 v = visited s2 v \<and> distance s1 v = distance s2 v \<and>
                            previous s1 v = previous s2 v)"

section \<open>The operations respect agreement\<close>

lemma agree_frames [simp]:
  "agree g (style_edge st e s1) s2 = agree g s1 s2"
  "agree g s1 (style_edge st e s2) = agree g s1 s2"
  "agree g (style_edges st es s1) s2 = agree g s1 s2"
  "agree g s1 (style_edges st es s2) = agree g s1 s2"
  "agree g (save_frame step s1) s2 = agree g s1 s2"
  "agree g s1 (save_frame step s2) = agree g s1 s2"
  "agree g (found_frames anim step s1) s2 = agree g s1 s2"
  "agree g s1 (found_frames anim step s2) = agree g s1 s2"
  "agree g (style_start_end n s1) s2 = agree g s1 s2"
  "agree g s1 (style_start_end n s2) = agree g s1 s2"
  by (simp_all add: agree_def)

lemma relax_edges_agree:
  assumes wf: "wf_graph g" and u: "u \<in> set (g_nodes g)"
  shows "set es \<subseteq> set (out_edges g u) \<Longrightarrow> agree g s1 s2 \<Longrightarrow>
    fst (relax_edges g u es pq s1) = fst (relax_edges g u es pq s2) \<and>
    agree g (snd (relax_edges g u es pq s1)) (snd (relax_edges g u es pq s2))"
proof (induction es arbitrary: pq s1 s2)
  case Nil
  then show ?case by simp
next
  case (Cons p es)
  obtain x v k dd where p: "p = ((x, v, k), dd)" by (metis prod.exhaust)
  note st = out_edge_step [OF wf Cons.prems(1) [unfolded p]]
  have v: "v \<in> set (g_nodes g)" using wf_graph_edge [OF wf st(4)] by simp
  have D: "distance s1 u = distance s2 u" "distance s1 v = distance s2 v"
    using Cons.prems(2) u v by (auto simp: agree_def)
  let ?nd = "dist_add (distance s2 u) (e_weight dd)"
  show ?case
  proof (cases "?nd < distance s2 v")
    case True
    then have T1: "dist_add (distance s1 u) (e_weight dd) < distance s1 v" using D by simp
    have "agree g (improved g u (x, v, k) ?nd s1) (improved g u (x, v, k) ?nd s2)"
      using Cons.prems(2) by (auto simp: agree_def)
    from Cons.IH [OF st(3) this, of "heappush (?nd, v) pq"] show ?thesis
      unfolding p relax_edges_improve [OF True] relax_edges_improve [OF T1] D by simp
  next
    case False
    then have F1: "\<not> dist_add (distance s1 u) (e_weight dd) < distance s1 v" using D by simp
    have "agree g (style_edge Visited (x, v, k) s1) (style_edge Visited (x, v, k) s2)"
      using Cons.prems(2) by simp
    from Cons.IH [OF st(3) this, of pq] show ?thesis
      unfolding p relax_edges_keep [OF False] relax_edges_keep [OF F1] by simp
  qed
qed

lemma dijkstra_loop_agree:
  "wf_graph g \<Longrightarrow> agree g s1 s2 \<Longrightarrow>
   fst (dijkstra_loop g dest anim pq step s1) = fst (dijkstra_loop g dest anim pq step s2) \<and>
   agree g (snd (dijkstra_loop g dest anim pq step s1)) (snd (dijkstra_loop g dest anim pq step s2))"
proof (induction g dest anim pq step s1 arbitrary: s2 rule: dijkstra_loop.induct)
  case (1 g dest anim pq step s1)
  note u1 = dijkstra_loop.simps [of g dest anim pq step s1]
  note u2 = dijkstra_loop.simps [of g dest anim pq step s2]
  show ?case
  proof (cases "heappop pq")
    case None
    with "1.prems" show ?thesis unfolding u1 u2 by simp
  next
    case (Some p)
    obtain d node pq' where p: "p = ((d, node), pq')" by (metis prod.exhaust)
    show ?thesis
    proof (cases "node = dest")
      case True
      with Some p "1.prems" show ?thesis unfolding u1 u2 by (simp add: agree_def)
    next
      case ndest: False
      show ?thesis
      proof (cases "node \<in> set (g_nodes g)")
        case False
        with Some p ndest "1.prems" show ?thesis unfolding u1 u2 by simp
      next
        case nodes: True
        have V: "visited s1 node = visited s2 node" using "1.prems"(2) nodes by (simp add: agree_def)
        show ?thesis
        proof (cases "visited s1 node")
          case True
          have "fst (dijkstra_loop g dest anim pq' step s1) = fst (dijkstra_loop g dest anim pq' step s2) \<and>
                agree g (snd (dijkstra_loop g dest anim pq' step s1)) (snd (dijkstra_loop g dest anim pq' step s2))"
            by (rule "1.IH"(1) [of p "(d, node)" pq' d node]) (use Some p ndest nodes True "1.prems" in simp_all)
          with Some p ndest nodes True V show ?thesis unfolding u1 u2 by simp
        next
          case False
          let ?m1 = "s1\<lparr>visited := (visited s1)(node := True)\<rparr>" and ?m2 = "s2\<lparr>visited := (visited s2)(node := True)\<rparr>"
          obtain pq1 t1 where r1: "relax_edges g node (out_edges g node) pq' ?m1 = (pq1, t1)" by (metis prod.exhaust)
          obtain pq2 t2 where r2: "relax_edges g node (out_edges g node) pq' ?m2 = (pq2, t2)" by (metis prod.exhaust)
          have "agree g ?m1 ?m2" using "1.prems"(2) by (simp add: agree_def)
          from relax_edges_agree [OF "1.prems"(1) nodes _ this, of "out_edges g node" pq'] r1 r2
          have eq: "pq1 = pq2" and ag: "agree g t1 t2" by simp_all
          have "fst (dijkstra_loop g dest anim pq1 (Suc step) (if anim then save_frame step t1 else t1)) =
                fst (dijkstra_loop g dest anim pq1 (Suc step) (if anim then save_frame step t2 else t2)) \<and>
                agree g (snd (dijkstra_loop g dest anim pq1 (Suc step) (if anim then save_frame step t1 else t1)))
                        (snd (dijkstra_loop g dest anim pq1 (Suc step) (if anim then save_frame step t2 else t2)))"
            by (rule "1.IH"(2) [of p "(d, node)" pq' d node pq1 t1]) (use Some p ndest nodes False r1 ag "1.prems" in simp_all)
          with Some p ndest nodes False V r1 r2 eq show ?thesis unfolding u1 u2 by simp
        qed
      qed
    qed
  qed
qed

text \<open>C18. On a well-formed graph, two searches with the same endpoints started
  from arbitrary states (for instance a fresh graph and one an earlier run has
  marked) return the same result, raise the same exception, and leave the same
  stage and the same \<open>visited\<close>, \<open>distance\<close> and \<open>previous\<close> attributes on every
  node of the graph.\<close>

theorem dijkstra_state_independent:
  assumes wf: "wf_graph g"
  shows "fst (dijkstra g orig dest anim s1) = fst (dijkstra g orig dest anim s2) \<and>
         agree g (snd (dijkstra g orig dest anim s1)) (snd (dijkstra g orig dest anim s2))"
proof -
  have "agree g (start_state g orig dest s1) (start_state g orig dest s2)"
    by (simp add: agree_def Let_def)
  from dijkstra_loop_agree [OF wf this, of dest anim "[(Fin 0, orig)]" 0]
  show ?thesis by (auto simp: dijkstra_def Let_def agree_def)
qed

end
