(* ===== verification/Render.thy ===== *)
theory Render
  imports Search
begin

text \<open>
  The rendering set-up of \<open>src/main.py\<close> (lines 65--94) and what
  \<open>save_frame\<close> hands to matplotlib (lines 109--117). \<open>pos\<close> maps each node to
  its projected coordinates \<open>(x, y)\<close>; \<open>edges_keys\<close> and \<open>edges_lines\<close> list the
  edges in iteration order with their polylines (the \<open>geometry\<close> attribute
  where osmnx stored one, else the segment between the end nodes); the
  \<open>LineCollection\<close> is created with the style attributes read through
  \<open>.get(attr, default)\<close>; the axes are limited to the range of the node
  coordinates. A frame draws, per edge of \<open>edges_keys\<close>, the colour, width and
  alpha of its current style, and a white dot of the node's \<open>size\<close> at every
  highlighted node. \<open>ax.scatter\<close> adds a new collection at every call and
  never removes the earlier ones; the model draws the markers of the current
  call only (the highlighted nodes do not change during a run, so the
  accumulated markers are the same points). The coordinates and geometries
  come from osmnx and are parameters; drawing and the figure itself are not
  modelled. The last section shows which nodes carry markers in the frames the
  search saves.
\<close>

section \<open>Definitions\<close>

text \<open>The node coordinates and edge geometries osmnx delivers.\<close>

record geo =
  xy :: "node \<Rightarrow> real \<times> real"
  geometry :: "edge \<Rightarrow> (real \<times> real) list option"

text \<open>Lines 66 and 69--77.\<close>

definition edges_keys :: "graph \<Rightarrow> edge list" where
  "edges_keys g = map fst (g_edges g)"

definition edges_lines :: "graph \<Rightarrow> geo \<Rightarrow> (real \<times> real) list list" where
  "edges_lines g p =
     map (\<lambda>e. case geometry p e of Some cs \<Rightarrow> cs | None \<Rightarrow> [xy p (fst e), xy p (fst (snd e))]) (edges_keys g)"

text \<open>The style attributes of an edge as read by \<open>G.edges[e].get(attr, default)\<close>:
  \<open>None\<close> where no \<open>style_*_edge\<close> call has set them yet.\<close>

fun style_attrs :: "edge_style option \<Rightarrow> string \<times> real \<times> real" where
  "style_attrs None = (''#d36206'', 0.5, 0.2)"
| "style_attrs (Some st) = (edge_color st, edge_linewidth st, edge_alpha st)"

text \<open>Lines 80--83: the \<open>LineCollection\<close> built before any edge is styled.\<close>

definition lc_setup :: "graph \<Rightarrow> (string \<times> real \<times> real) list" where
  "lc_setup g = map (\<lambda>e. style_attrs None) (edges_keys g)"

text \<open>Lines 92--93: \<open>ax.set_xlim(min(x ...), max(x ...))\<close> and the same for
  \<open>y\<close>; \<open>min\<close> of an empty sequence raises \<open>ValueError\<close>.\<close>

definition axis_limits :: "graph \<Rightarrow> geo \<Rightarrow> error + (real \<times> real) \<times> (real \<times> real)" where
  "axis_limits g p =
     (if g_nodes g = [] then Inl ValueError
      else let xs = map (fst \<circ> xy p) (g_nodes g); ys = map (snd \<circ> xy p) (g_nodes g)
           in Inr ((Min (set xs), Max (set xs)), (Min (set ys), Max (set ys))))"

text \<open>Lines 109--117: the edge styles and the node markers a frame draws.\<close>

record drawing =
  d_edges :: "(string \<times> real \<times> real) list"
  d_points :: "(real \<times> real) list"
  d_sizes :: "nat list"

definition draw_frame :: "graph \<Rightarrow> geo \<Rightarrow> gstate \<Rightarrow> drawing" where
  "draw_frame g p s =
     (let hl = filter (highlight s) (g_nodes g)
      in \<lparr>d_edges = map (\<lambda>e. style_attrs (Some (estyle s e))) (edges_keys g),
          d_points = map (xy p) hl, d_sizes = map (nsize s) hl\<rparr>)"

section \<open>The node markers of the search's frames\<close>

text \<open>Frames all of which record the current highlighting.\<close>

lemma save_frame_marks:
  "\<forall>fr \<in> set (frames s). snd (snd fr) = highlight s \<Longrightarrow>
   \<forall>fr \<in> set (frames (save_frame step s)). snd (snd fr) = highlight (save_frame step s)"
  by (simp add: save_frame_frames)

lemma funpow_save_frame_marks:
  "\<forall>fr \<in> set (frames s). snd (snd fr) = highlight s \<Longrightarrow>
   \<forall>fr \<in> set (frames ((save_frame step ^^ k) s)). snd (snd fr) = highlight s"
proof (induction k)
  case 0
  then show ?case by simp
next
  case (Suc k)
  then show ?case using save_frame_marks [of "(save_frame step ^^ k) s" step] by simp
qed

lemma dijkstra_loop_frame_marks:
  assumes "\<forall>fr \<in> set (frames s). snd (snd fr) = highlight s"
  shows "\<forall>fr \<in> set (frames (snd (dijkstra_loop g dest anim pq step s))). snd (snd fr) = highlight s"
proof (rule dijkstra_loop_rule [where I = "\<lambda>pq step s'. highlight s' = highlight s \<and>
                                              (\<forall>fr \<in> set (frames s'). snd (snd fr) = highlight s)"
                                 and R = "\<lambda>r s'. \<forall>fr \<in> set (frames s'). snd (snd fr) = highlight s"])
  fix pq step d node pq' pq'' and s1 s' :: gstate
  assume I: "highlight s1 = highlight s \<and> (\<forall>fr \<in> set (frames s1). snd (snd fr) = highlight s)"
    and r: "relax_edges g node (out_edges g node) pq' (s1\<lparr>visited := (visited s1)(node := True)\<rparr>) = (pq'', s')"
  have "highlight s' = highlight s1" "frames s' = frames s1"
    using relax_edges_frame(3,4) [of g node "out_edges g node" pq' "s1\<lparr>visited := (visited s1)(node := True)\<rparr>"] r
    by simp_all
  with I save_frame_marks [of s' step] show "highlight (if anim then save_frame step s' else s') = highlight s \<and>
      (\<forall>fr \<in> set (frames (if anim then save_frame step s' else s')). snd (snd fr) = highlight s)"
    by simp
next
  fix pq step d pq' and s1 :: gstate
  assume "highlight s1 = highlight s \<and> (\<forall>fr \<in> set (frames s1). snd (snd fr) = highlight s)"
  then show "\<forall>fr \<in> set (frames (found_frames anim step (s1\<lparr>stage := Found\<rparr>))). snd (snd fr) = highlight s"
    using funpow_save_frame_marks [where s = "s1\<lparr>stage := Found\<rparr>" and step = step and k = 22] save_frame_marks [of "s1\<lparr>stage := Found\<rparr>" step]
    by (simp add: found_frames_def)
qed (use assms in simp_all)

text \<open>C20. Every frame the search saves, starting from the script's initial
  state, draws white markers exactly at the origin and the destination: the
  search highlights the two endpoints before its loop (lines 142--143) and no
  other node.\<close>

theorem search_frames_mark_endpoints:
  "\<forall>fr \<in> set (frames (snd (dijkstra g orig dest anim init_gstate))). snd (snd fr) = (\<lambda>n. n = orig \<or> n = dest)"
proof (cases "orig \<in> set (g_nodes g) \<and> dest \<in> set (g_nodes g)")
  case True
  let ?S = "start_state g orig dest init_gstate"
  have run: "dijkstra g orig dest anim init_gstate = dijkstra_loop g dest anim [(Fin 0, orig)] 0 ?S"
    using True dijkstra_cases [of g orig dest anim init_gstate] by simp
  have hl: "highlight ?S = (\<lambda>n. n = orig \<or> n = dest)"
    by (simp add: Let_def style_start_end_def init_gstate_def fun_eq_iff)
  have "frames ?S = []" by (simp add: Let_def init_gstate_def)
  then show ?thesis
    using dijkstra_loop_frame_marks [of ?S g dest anim "[(Fin 0, orig)]" 0] hl unfolding run by simp
next
  case False
  then show ?thesis by (auto simp: dijkstra_def Let_def init_gstate_def)
qed

end
