(* ===== verification/PathStyle.thy ===== *)
theory PathStyle
  imports Reconstruct
begin

text \<open>
  Which edges \<open>reconstruct_path\<close> draws as the route. The walk back from the
  destination follows \<open>previous\<close> links; \<open>on_chain prev orig dest v\<close> says that
  \<open>v\<close> is met on that walk (the walk stops at the origin or at a node without
  link). Every link \<open>previous[v] = u\<close> walked is drawn by styling all parallel
  edges from \<open>u\<close> to \<open>v\<close> (\<open>for key in G[prev][curr]\<close>, line 205), after every
  edge was styled unvisited (lines 191--192).
\<close>

section \<open>Definitions\<close>

inductive on_chain :: "(node \<Rightarrow> node option) \<Rightarrow> node \<Rightarrow> node \<Rightarrow> node \<Rightarrow> bool"
  for prev orig dest where
  start: "on_chain prev orig dest dest"
| link: "on_chain prev orig dest v \<Longrightarrow> v \<noteq> orig \<Longrightarrow> prev v = Some u \<Longrightarrow> on_chain prev orig dest u"

text \<open>An edge drawn as path: it joins a walked link \<open>previous[v] = u\<close>.\<close>

definition path_edge :: "graph \<Rightarrow> (node \<Rightarrow> node option) \<Rightarrow> node \<Rightarrow> node \<Rightarrow> edge \<Rightarrow> bool" where
  "path_edge g prev orig dest e \<longleftrightarrow>
     e \<in> set (map fst (g_edges g)) \<and> on_chain prev orig dest (fst (snd e)) \<and> fst (snd e) \<noteq> orig \<and>
     prev (fst (snd e)) = Some (fst e)"

text \<open>While the walk is at \<open>c\<close>, the links walked so far are those of the
  chain from the destination that lie before \<open>c\<close>.\<close>

definition walked :: "graph \<Rightarrow> (node \<Rightarrow> node option) \<Rightarrow> node \<Rightarrow> node \<Rightarrow> node \<Rightarrow> edge \<Rightarrow> bool" where
  "walked g prev orig dest c e \<longleftrightarrow> path_edge g prev orig dest e \<and> \<not> on_chain prev orig c (fst (snd e))"

section \<open>The chain\<close>

lemma on_chain_orig: "on_chain prev orig orig v \<longleftrightarrow> v = orig"
proof
  show "on_chain prev orig orig v \<Longrightarrow> v = orig" by (induction rule: on_chain.induct) auto
qed (simp add: on_chain.start)

lemma on_chain_stop:
  assumes "prev c = None"
  shows "on_chain prev orig c v \<longleftrightarrow> v = c"
proof
  show "on_chain prev orig c v \<Longrightarrow> v = c" by (induction rule: on_chain.induct) (use assms in auto)
qed (simp add: on_chain.start)

text \<open>The chain from a node is the node followed by the chain from its link.\<close>

lemma on_chain_step:
  assumes "c \<noteq> orig" "prev c = Some p"
  shows "on_chain prev orig c v \<longleftrightarrow> v = c \<or> on_chain prev orig p v"
proof
  show "on_chain prev orig c v \<Longrightarrow> v = c \<or> on_chain prev orig p v"
    by (induction rule: on_chain.induct) (use assms in \<open>auto intro: on_chain.intros\<close>)
next
  have "on_chain prev orig p v \<Longrightarrow> on_chain prev orig c v"
    by (induction rule: on_chain.induct) (use assms in \<open>auto intro: on_chain.intros\<close>)
  then show "v = c \<or> on_chain prev orig p v \<Longrightarrow> on_chain prev orig c v" by (auto intro: on_chain.start)
qed

text \<open>Under the search's predecessor invariant, the chain from a node of the
  graph stays in the graph and never comes back to a larger distance.\<close>

lemma on_chain_below:
  assumes inv: "pred_inv g prev D"
  shows "on_chain prev orig c v \<Longrightarrow> c \<in> set (g_nodes g) \<Longrightarrow> v \<in> set (g_nodes g) \<and> D v \<le> D c"
proof (induction rule: on_chain.induct)
  case start
  then show ?case by simp
next
  case (link v u)
  then have "u \<in> set (g_nodes g)" "D u < D v" using pred_invD [OF inv] by blast+
  with link show ?case by auto
qed

lemma mark_path_edges_estyle:
  "estyle (mark_path_edges g alg u v s) =
     (\<lambda>e. if e \<in> set (map fst (g_edges g)) \<and> fst e = u \<and> fst (snd e) = v then OnPath else estyle s e)"
proof -
  have "estyle (fold (mark_path_edge alg) es s) = (\<lambda>e. if e \<in> set es then OnPath else estyle s e)" for es
    by (induction es arbitrary: s)
       (auto simp: mark_path_edge_def style_edge_def Let_def fun_eq_iff split: option.splits)
  moreover have "e \<in> set (map (\<lambda>k. (u, v, k)) (edge_keys g u v)) \<longleftrightarrow>
                 e \<in> set (map fst (g_edges g)) \<and> fst e = u \<and> fst (snd e) = v" for e
    by (cases e) (force simp: edge_keys_def)
  ultimately show ?thesis by (simp add: mark_path_edges_def)
qed

section \<open>The styles reconstruction leaves\<close>

lemma walked_step:
  assumes inv: "pred_inv g prev D" and c: "c \<noteq> orig" "c \<in> set (g_nodes g)" "prev c = Some p"
    and chain: "on_chain prev orig dest c"
  shows "walked g prev orig dest p e \<longleftrightarrow>
           walked g prev orig dest c e \<or> (e \<in> set (map fst (g_edges g)) \<and> fst e = p \<and> fst (snd e) = c)"
proof -
  have "D p < D c" using pred_invD [OF inv c(2,3)] by blast
  moreover have "p \<in> set (g_nodes g)" using pred_invD [OF inv c(2,3)] by blast
  ultimately have "\<not> on_chain prev orig p c" using on_chain_below [OF inv] by force
  then have "\<not> on_chain prev orig p v \<longleftrightarrow> \<not> on_chain prev orig c v \<or> v = c" for v
    using on_chain_step [of c orig prev p, OF c(1,3)] by blast
  with chain c show ?thesis by (auto simp: walked_def path_edge_def)
qed

lemma walk_styles:
  assumes wf: "wf_graph g" and inv: "pred_inv g (previous s) (distance s)" and dest: "dest \<in> set (g_nodes g)"
    and st: "\<forall>e \<in> set (map fst (g_edges g)). estyle s e = Unvisited"
  shows "\<exists>r s'. walk g orig anim alg dest l sp k s = Some (r, s') \<and> (\<forall>e. r \<noteq> Walk_error e) \<and>
           (\<forall>l sp k. r = Walk_reached l sp k \<longrightarrow> on_chain (previous s) orig dest orig) \<and>
           (\<forall>e \<in> set (map fst (g_edges g)).
              estyle s' e = (if path_edge g (previous s) orig dest e then OnPath else Unvisited))"
proof -
  let ?P = "previous s"
  have key0: "edge_keys g u v \<noteq> [] \<Longrightarrow> edge_data g (u, v, 0) \<noteq> None" for u v
    using edge_data_key0 [OF wf] by blast
  let ?I = "\<lambda>c (l :: real) (sp :: real list) (k :: nat) s'. previous s' = ?P \<and> c \<in> set (g_nodes g) \<and>
     on_chain ?P orig dest c \<and>
     (\<forall>e \<in> set (map fst (g_edges g)). estyle s' e = (if walked g ?P orig dest c e then OnPath else Unvisited))"
  let ?Q = "\<lambda>r s'. (\<forall>e. r \<noteq> Walk_error e) \<and>
     (\<forall>l sp k. r = Walk_reached l sp k \<longrightarrow> on_chain ?P orig dest orig) \<and>
     (\<forall>e \<in> set (map fst (g_edges g)). estyle s' e = (if path_edge g ?P orig dest e then OnPath else Unvisited))"
  have I0: "?I dest l sp k s"
    using dest st by (simp add: walked_def path_edge_def on_chain.start)
  show ?thesis
  proof (rule walk_rule [where I = ?I and Q = ?Q, OF inv I0])
    fix c l sp k p d and s' :: gstate
    assume "pred_inv g (previous s') (distance s')" "?I c l sp k s'" "c \<noteq> orig" "c \<in> set (g_nodes g)"
      "previous s' c = Some p" "edge_keys g p c \<noteq> []" "edge_data g (p, c, 0) = Some d"
    then show "?I p (l + e_length d) (sp @ [e_maxspeed d]) (Suc k)
                 (if anim then save_frame k (mark_path_edges g alg p c s') else mark_path_edges g alg p c s')"
      using walked_step [of g ?P "distance s'" c orig p dest] pred_invD [of g ?P "distance s'" c p]
      by (auto simp: mark_path_edges_estyle intro: on_chain.link)
  next
    fix l sp k and s' :: gstate
    assume "?I orig l sp k s'"
    then show "?Q (Walk_reached l sp k) s'" by (simp add: walked_def path_edge_def on_chain_orig)
  next
    fix c l sp k and s' :: gstate
    assume "?I c l sp k s'" "c \<notin> set (g_nodes g)"
    then show "?Q (Walk_error KeyError) s'" by simp
  next
    fix c l sp k and s' :: gstate
    assume "?I c l sp k s'" "previous s' c = None"
    then show "?Q Walk_unaccessible s'" by (auto simp: walked_def path_edge_def on_chain_stop)
  next
    fix c l sp k p and s' :: gstate
    assume "?I c l sp k s'" "edge_keys g p c \<noteq> []" "edge_data g (p, c, 0) = None"
    then show "?Q (Walk_error KeyError) (mark_path_edges g alg p c s')" using key0 by blast
  qed
qed

lemma route_report_estyle [simp]: "estyle (snd (route_report anim l sp k s)) = estyle s"
  by (simp add: route_report_def Let_def)

lemma reconstruct_styles:
  assumes wf: "wf_graph g" and inv: "pred_inv g (previous s) (distance s)" and dest: "dest \<in> set (g_nodes g)"
  shows "\<exists>r s'. reconstruct_path g orig dest anim alg s = Some (r, s') \<and>
           (\<forall>e \<in> set (map fst (g_edges g)).
              estyle s' e = (if path_edge g (previous s) orig dest e then OnPath else Unvisited)) \<and>
           ((\<exists>km avg t. r = Inr (Route km avg t)) \<longrightarrow> on_chain (previous s) orig dest orig)"
proof -
  have "pred_inv g (previous (recon_start g s)) (distance (recon_start g s))" using inv by simp
  from walk_styles [OF wf this dest, of orig anim alg 0 "[]" 0]
  obtain w s1 where run: "walk g orig anim alg dest 0 [] 0 (recon_start g s) = Some (w, s1)"
    and ok: "\<forall>e. w \<noteq> Walk_error e" "\<forall>l sp k. w = Walk_reached l sp k \<longrightarrow> on_chain (previous s) orig dest orig"
      "\<forall>e \<in> set (map fst (g_edges g)).
         estyle s1 e = (if path_edge g (previous s) orig dest e then OnPath else Unvisited)"
    by auto
  show ?thesis
  proof (cases w)
    case (Walk_error e)
    with ok show ?thesis by simp
  next
    case Walk_unaccessible
    with run ok show ?thesis by (simp add: reconstruct_path_def)
  next
    case (Walk_reached l sp k)
    obtain r s' where rr: "route_report anim l sp k s1 = (r, s')" by (metis prod.exhaust)
    then have "estyle s' = estyle s1" using route_report_estyle [of anim l sp k s1] by simp
    with rr run ok Walk_reached show ?thesis by (simp add: reconstruct_path_def)
  qed
qed

text \<open>C21. After the search on a well-formed graph, reconstruction towards a node
  of the graph returns with exactly the edges of the walked \<open>previous\<close> links
  from the destination styled as path, every parallel edge of such a link
  included, and every other edge of the graph styled unvisited; when it reports
  a route, the walk from the destination reached the origin.\<close>

theorem reconstruct_styles_path:
  assumes "wf_graph g" "dest \<in> set (g_nodes g)"
  shows "\<exists>r s'. reconstruct_path g orig dest anim alg (snd (dijkstra g orig dest anim' s)) = Some (r, s') \<and>
           (\<forall>e \<in> set (map fst (g_edges g)). estyle s' e =
              (if path_edge g (previous (snd (dijkstra g orig dest anim' s))) orig dest e then OnPath else Unvisited)) \<and>
           ((\<exists>km avg t. r = Inr (Route km avg t)) \<longrightarrow> on_chain (previous (snd (dijkstra g orig dest anim' s))) orig dest orig)"
  using reconstruct_styles [OF assms(1) pred_inv_after_dijkstra [OF assms(1)] assms(2)] .

end
