(* ===== verification/Program.thy ===== *)
theory Program
  imports Frames Script "HOL-Library.AList"
begin

text \<open>
  The program around the script: the frames folder and the video. Line 23
  creates the folder \<open>frames_folder\<close> with \<open>exist_ok=True\<close>, so files an
  earlier run left there stay; every frame \<open>save_frame\<close> saves is written by
  \<open>plt.savefig\<close> to \<open>frame_{n:05d}.png\<close> (lines 122--123), replacing a file of
  that name; when the run ends normally and \<open>animation\<close> is set, lines
  252--253 call \<open>generate_video\<close> (lines 227--244), which reads the
  \<open>.png\<close> files of the folder in sorted order, appends each image to the
  video, and removes the folder. An exception of the script ends the program
  before that. A folder is an association list from file names to the frame
  a file shows; the video is the list of frames it shows. \<open>os.listdir\<close>
  returns the names of a folder in an order the operating system chooses: the
  model takes it as a parameter \<open>listdir\<close>, and its theorems hold for every
  \<open>listdir\<close> that lists each file once.
\<close>

section \<open>Definitions\<close>

type_synonym folder = "(string \<times> frame) list"

text \<open>Lines 122--123, over a whole run: each saved frame is written to its file.\<close>

definition save_files :: "frame list \<Rightarrow> folder \<Rightarrow> folder" where
  "save_files frs d = fold (\<lambda>fr. AList.update (frame_name (fst fr)) fr) frs d"

text \<open>Lines 228--238: the \<open>.png\<close> names of the listing \<open>ls\<close> of the folder
  \<open>d\<close>, sorted, each file read and appended.\<close>

definition generate_video :: "string list \<Rightarrow> folder \<Rightarrow> frame list" where
  "generate_video ls d = map (\<lambda>f. the (map_of d f)) (video_order ls)"

text \<open>The whole program from the state of the frames folder before it starts
  (\<open>None\<close>: no folder): what it prints or raises, the video it encodes, and
  the folder it leaves (\<open>None\<close>: removed by \<open>shutil.rmtree\<close>).\<close>

definition run_program ::
  "(folder \<Rightarrow> string list) \<Rightarrow> raw_graph \<Rightarrow> node \<Rightarrow> node \<Rightarrow> bool \<Rightarrow> folder option
     \<Rightarrow> ((error + recon_out) \<times> frame list option \<times> folder option) option" where
  "run_program listdir rg start goal anim d0 =
     (let d = (case d0 of None \<Rightarrow> [] | Some d \<Rightarrow> d)
      in case run_script rg start goal anim of
           None \<Rightarrow> None
         | Some (Inl e, s) \<Rightarrow> Some (Inl e, None, Some (save_files (frames s) d))
         | Some (Inr out, s) \<Rightarrow>
             if anim then Some (Inr out, Some (generate_video (listdir (save_files (frames s) d))
                                                              (save_files (frames s) d)), None)
             else Some (Inr out, None, Some (save_files (frames s) d)))"

section \<open>Frame files\<close>

lemma fmt05_value: "digits_value (fmt05 n) = int n"
  by (simp add: fmt05_def show_nat_value del: digits_value_append)

lemma frame_name_inj [simp]: "frame_name m = frame_name n \<longleftrightarrow> m = n"
proof
  assume "frame_name m = frame_name n"
  then have "fmt05 m = fmt05 n" by (simp only: frame_name_def same_append_eq append_same_eq)
  then have "int m = int n" using fmt05_value [of m] fmt05_value [of n] by (simp only:)
  then show "m = n" by (rule of_nat_eq_iff [THEN iffD1])
qed (rule arg_cong)

lemma save_files_snoc: "save_files (frs @ [fr]) d = AList.update (frame_name (fst fr)) fr (save_files frs d)"
  by (simp add: save_files_def)

lemma save_files_keys:
  "set (map fst (save_files frs d)) = set (map fst d) \<union> (frame_name \<circ> fst) ` set frs \<and>
   (distinct (map fst d) \<longrightarrow> distinct (map fst (save_files frs d)))"
proof (induction frs rule: rev_induct)
  case Nil
  then show ?case by (simp add: save_files_def)
next
  case (snoc fr frs)
  then show ?case by (auto simp: save_files_snoc dom_update distinct_update)
qed

lemma map_of_save_files:
  "map fst frs = [0..<N] \<Longrightarrow>
   map_of (save_files frs d) (frame_name i) = (if i < N then Some (frs ! i) else map_of d (frame_name i))"
proof (induction frs arbitrary: N rule: rev_induct)
  case Nil
  then have "N = 0" by (cases N) simp_all
  then show ?case by (simp add: save_files_def)
next
  case (snoc fr frs)
  then obtain M where N: "N = Suc M" by (cases N) auto
  with snoc.prems have "map fst frs = [0..<M]" "fst fr = M" by simp_all
  moreover have "length frs = M" using \<open>map fst frs = [0..<M]\<close> by (metis length_map length_upt minus_nat.diff_0)
  ultimately show ?case using snoc.IH [of M] N by (auto simp: save_files_snoc update_conv' nth_append)
qed

lemma video_order_set:
  assumes "distinct xs" "distinct ys" "set xs = set ys"
  shows "video_order xs = video_order ys"
  unfolding video_order_def using assms by (intro sorted_distinct_set_unique) simp_all

lemma save_files_numbered_keys:
  assumes "map fst frs = [0..<N]"
  shows "set (map fst (save_files frs d)) = set (map fst d) \<union> frame_name ` {0..<N} \<and>
         (distinct (map fst d) \<longrightarrow> distinct (map fst (save_files frs d)))"
proof -
  have "(frame_name \<circ> fst) ` set frs = frame_name ` set (map fst frs)" by auto
  with assms save_files_keys [of frs d] show ?thesis by simp
qed

text \<open>The video made from a folder into which a run wrote \<open>new\<close> after an
  earlier run had written \<open>old\<close> into a fresh folder.\<close>

lemma generate_video_numbered:
  assumes new: "map fst new = [0..<N]" and old: "map fst old = [0..<M]" and bounds: "N \<le> 100000" "M \<le> 100000"
    and ls: "mset ls = mset (map fst (save_files new (save_files old [])))"
  shows "generate_video ls (save_files new (save_files old [])) = new @ drop N old"
proof -
  let ?D = "save_files new (save_files old [])" and ?K = "max N M"
  have lenN: "length new = N" and lenM: "length old = M"
    using new old by (metis length_map length_upt minus_nat.diff_0)+
  have k1: "set (map fst (save_files old [])) = frame_name ` {0..<M}" "distinct (map fst (save_files old []))"
    using save_files_numbered_keys [OF old, of "[]"] by simp_all
  have iv: "{0..<M} \<union> {0..<N} = {0..<?K}" by auto
  have "set (map fst ?D) = frame_name ` {0..<?K}" "distinct (map fst ?D)"
    using save_files_numbered_keys [OF new, of "save_files old []"] k1
    by (simp_all add: image_Un [symmetric] iv)
  then have "set ls = frame_name ` {0..<?K}" "distinct ls"
    using ls mset_eq_length [OF ls] by (metis set_mset_mset, metis card_distinct distinct_card set_mset_mset)
  moreover have "distinct (map frame_name [0..<?K])" by (simp add: distinct_map inj_on_def)
  ultimately have "video_order ls = map frame_name [0..<?K]"
    using video_order_set [of ls "map frame_name [0..<?K]"] video_order_frame_names [of ?K] bounds
    by simp
  then have v: "generate_video ls ?D = map (\<lambda>i. the (map_of ?D (frame_name i))) [0..<?K]"
    by (simp add: generate_video_def)
  show ?thesis unfolding v
  proof (rule nth_equalityI)
    show "length (map (\<lambda>i. the (map_of ?D (frame_name i))) [0..<?K]) = length (new @ drop N old)"
      using lenN lenM by simp
  next
    fix i assume "i < length (map (\<lambda>i. the (map_of ?D (frame_name i))) [0..<?K])"
    then have i: "i < ?K" by simp
    have "the (map_of ?D (frame_name i)) = (new @ drop N old) ! i"
    proof (cases "i < N")
      case True
      then show ?thesis using map_of_save_files [OF new, of "save_files old []" i] lenN by (simp add: nth_append)
    next
      case False
      then have "i < M" using i by simp
      then have "map_of ?D (frame_name i) = Some (old ! i)"
        using False map_of_save_files [OF new, of "save_files old []" i] map_of_save_files [OF old, of "[]" i]
        by simp
      moreover have "(new @ drop N old) ! i = old ! i" using False \<open>i < M\<close> lenN lenM by (simp add: nth_append)
      ultimately show ?thesis by simp
    qed
    with i show "map (\<lambda>i. the (map_of ?D (frame_name i))) [0..<?K] ! i = (new @ drop N old) ! i" by simp
  qed
qed

section \<open>The video of a run\<close>

lemma run_program_video:
  assumes raw: "raw_wf rg" and run: "run_script rg start goal True = Some (Inr out, s)"
    and bound: "frame_count s \<le> 100000" and old: "map fst old = [0..<M]" "M \<le> 100000"
    and ls: "\<forall>d. mset (listdir d) = mset (map fst d)"
  shows "run_program listdir rg start goal True (Some (save_files old [])) =
           Some (Inr out, Some (frames s @ drop (frame_count s) old), None)"
proof -
  have "map fst (frames s) = [0..<frame_count s]"
    using run_script_numbered [OF raw run] by (simp add: frames_numbered_def)
  from generate_video_numbered [OF this old(1) bound old(2)] ls run show ?thesis
    by (simp add: run_program_def)
qed

text \<open>C22. The folder is created with \<open>exist_ok=True\<close> and never emptied before a
  run: when an earlier run left \<open>M\<close> frame files in it (a run stopped by an
  exception does not remove the folder), the video of a run that ends normally
  plays the run's own frames, in the order it saved them, followed by the
  earlier run's frames numbered from the run's frame count on, whatever order
  \<open>os.listdir\<close> lists the files in; the folder is removed. With no earlier
  frames (\<open>M = 0\<close>) the video is exactly the run's frames.\<close>

theorem program_video_stale_frames:
  assumes "raw_wf rg" "run_script rg start goal True = Some (Inr out, s)" "frame_count s \<le> 100000"
    and "map fst old = [0..<M]" "M \<le> 100000" "\<forall>d. mset (listdir d) = mset (map fst d)"
  shows "run_program listdir rg start goal True (Some (save_files old [])) =
           Some (Inr out, Some (frames s @ drop (frame_count s) old), None)"
  using run_program_video [OF assms] .

section \<open>A run with equal endpoints\<close>

lemma funpow_save_frame_Found:
  "stage s = Found \<Longrightarrow> frame_count ((save_frame step ^^ k) s) = frame_count s + k"
  by (induction k) (simp_all add: save_frame_def)

text \<open>With the animation on, a search whose origin is its destination pops it
  at once and saves the 22 frames of the found stage.\<close>

lemma dijkstra_same_endpoint_frames:
  assumes "v \<in> set (g_nodes g)"
  shows "fst (dijkstra g v v True s) = Inr 0 \<and> frame_count (snd (dijkstra g v v True s)) = frame_count s + 22"
proof -
  let ?S = "start_state g v v s"
  have "dijkstra g v v True s = (Inr 0, found_frames True 0 (?S\<lparr>stage := Found\<rparr>))"
    using assms dijkstra_cases [of g v v True s] by (simp add: dijkstra_loop.simps [of g v True "[(Fin 0, v)]"])
  moreover have "frame_count ?S = frame_count s" by (simp add: Let_def)
  ultimately show ?thesis by (simp add: found_frames_def funpow_save_frame_Found)
qed

lemma run_script_same_endpoint:
  assumes "clean_graph rg = Inr g" "v \<in> set (g_nodes g)"
  shows "\<exists>s. run_script rg v v True = Some (Inl ZeroDivisionError, s) \<and> frame_count s = 22"
proof -
  obtain s1 where d: "dijkstra g v v True init_gstate = (Inr 0, s1)" "frame_count s1 = 22"
    using dijkstra_same_endpoint_frames [OF assms(2), of init_gstate] by (cases "dijkstra g v v True init_gstate") (simp add: init_gstate_def)
  have "reconstruct_path g v v True None s1 = Some (Inl ZeroDivisionError, recon_start g s1)"
    by (simp add: reconstruct_path_def walk.simps [of g v True None v] route_report_def)
  with assms d show ?thesis by (auto simp: run_script_def)
qed


text \<open>C23. A crash leaves its frames to the next video. On every graph the
  cleaning accepts, an animated run from a node to itself saves the 22 frames
  of the found stage and then raises \<open>ZeroDivisionError\<close>: no video is made
  and the folder keeps the 22 files. Any later animated run that ends
  normally then encodes its own frames followed by the crashed run's frames
  numbered from its frame count on.\<close>

theorem crash_frames_in_next_video:
  assumes raw: "raw_wf rg" and cl: "clean_graph rg = Inr g" and v: "v \<in> set (g_nodes g)"
    and run: "run_script rg start goal True = Some (Inr out, s2)" and bound: "frame_count s2 \<le> 100000"
    and ls: "\<forall>d. mset (listdir d) = mset (map fst d)"
  shows "\<exists>s1 F. run_script rg v v True = Some (Inl ZeroDivisionError, s1) \<and> length (frames s1) = 22 \<and>
           run_program listdir rg v v True None = Some (Inl ZeroDivisionError, None, Some F) \<and>
           run_program listdir rg start goal True (Some F) =
             Some (Inr out, Some (frames s2 @ drop (frame_count s2) (frames s1)), None)"
proof -
  obtain s1 where r1: "run_script rg v v True = Some (Inl ZeroDivisionError, s1)" "frame_count s1 = 22"
    using run_script_same_endpoint [OF cl v] by blast
  have n1: "map fst (frames s1) = [0..<22]"
    using run_script_numbered [OF raw r1(1)] r1(2) by (simp add: frames_numbered_def)
  then have "length (frames s1) = 22" by (metis length_map length_upt minus_nat.diff_0)
  moreover have "run_program listdir rg v v True None = Some (Inl ZeroDivisionError, None, Some (save_files (frames s1) []))"
    using r1 by (simp add: run_program_def)
  moreover have "run_program listdir rg start goal True (Some (save_files (frames s1) [])) =
                   Some (Inr out, Some (frames s2 @ drop (frame_count s2) (frames s1)), None)"
    using run_program_video [OF raw run bound n1 _ ls] by simp
  ultimately show ?thesis using r1 by blast
qed

end
