(* ===== verification/Distances.thy ===== *)
theory Distances
  imports Search
begin

text \<open>
  The values the search writes into the node attributes \<open>distance\<close> and
  \<open>previous\<close> (lines 132--147, 160--178). Python does not check them; the
  search keeps them in the range its readers expect: a distance is
  \<open>float("inf")\<close> or a non-negative sum of edge weights, and a predecessor is
  \<open>None\<close> or a node of the graph.
\<close>

section \<open>Definitions\<close>

definition dist_ok :: "graph \<Rightarrow> (node \<Rightarrow> dist) \<Rightarrow> bool" where
  "dist_ok g D \<longleftrightarrow> list_all (\<lambda>v. case D v of Inf \<Rightarrow> True | Fin d \<Rightarrow> 0 \<le> d) (g_nodes g)"

section \<open>Preservation\<close>

lemma dist_ok_update:
  "dist_ok g D \<Longrightarrow> (case x of Inf \<Rightarrow> True | Fin d \<Rightarrow> 0 \<le> d) \<Longrightarrow> dist_ok g (D(v := x))"
  by (auto simp: dist_ok_def list_all_iff)

lemma dist_ok_add:
  "dist_ok g D \<Longrightarrow> u \<in> set (g_nodes g) \<Longrightarrow> 0 < w \<Longrightarrow> (case dist_add (D u) w of Inf \<Rightarrow> True | Fin d \<Rightarrow> 0 \<le> d)"
  by (cases "D u") (auto simp: dist_ok_def list_all_iff)

lemma relax_edges_dist_ok:
  assumes "wf_graph g" "node \<in> set (g_nodes g)"
  shows "set es \<subseteq> set (out_edges g node) \<Longrightarrow> dist_ok g (distance s) \<Longrightarrow>
         dist_ok g (distance (snd (relax_edges g node es pq s)))"
proof (induction es arbitrary: pq s)
  case Nil
  then show ?case by simp
next
  case (Cons p es)
  obtain u v k d where p: "p = ((u, v, k), d)" by (metis prod.exhaust)
  have mem: "((u, v, k), d) \<in> set (g_edges g)" using Cons.prems(1) p by (auto simp: out_edges_set)
  have es: "set es \<subseteq> set (out_edges g node)" using Cons.prems(1) by simp
  let ?nd = "dist_add (distance s node) (e_weight d)"
  have "0 < e_weight d" using wf_graph_edge [OF assms(1) mem] by simp
  then have "dist_ok g ((distance s)(v := ?nd))"
    using dist_ok_update [OF Cons.prems(2) dist_ok_add [OF Cons.prems(2) assms(2)]] by blast
  moreover
  let ?s2 = "style_edges Active (map fst (out_edges g v))
               (style_edge Visited (u, v, k) s\<lparr>distance := (distance s)(v := ?nd),
                                                previous := (previous s)(v := Some node)\<rparr>)"
  have "distance ?s2 = (distance s)(v := ?nd)" by simp
  ultimately have "dist_ok g (distance ?s2)" by simp
  from Cons.IH [OF es this, of "heappush (?nd, v) pq"] Cons.IH [OF es, of "style_edge Visited (u, v, k) s" pq]
  show ?case using Cons.prems(2) p by (simp add: Let_def)
qed

lemma dijkstra_loop_dist_ok:
  assumes "wf_graph g" "dist_ok g (distance s)"
  shows "dist_ok g (distance (snd (dijkstra_loop g dest anim pq step s)))"
proof (rule dijkstra_loop_rule [where I = "\<lambda>pq step s. dist_ok g (distance s)"
                                 and R = "\<lambda>r s'. dist_ok g (distance s')"])
  fix pq step s d node pq' pq'' s'
  assume "dist_ok g (distance s)" "node \<in> set (g_nodes g)"
    and r: "relax_edges g node (out_edges g node) pq' (s\<lparr>visited := (visited s)(node := True)\<rparr>) = (pq'', s')"
  then have "dist_ok g (distance s')"
    using relax_edges_dist_ok [OF assms(1), of node "out_edges g node" "s\<lparr>visited := (visited s)(node := True)\<rparr>" pq']
    by simp
  then show "dist_ok g (distance (if anim then save_frame step s' else s'))" by simp
qed (use assms(2) in simp_all)

text \<open>C24. Whether the search returns or raises, it leaves every node of a
  well-formed graph with a distance that is \<open>float("inf")\<close> or a non-negative
  number, and with a predecessor that is \<open>None\<close> or a node of the graph.\<close>

theorem dijkstra_attribute_types:
  assumes "wf_graph g" "v \<in> set (g_nodes g)"
  shows "(distance (snd (dijkstra g orig dest anim s)) v = Inf \<or>
          (\<exists>d. 0 \<le> d \<and> distance (snd (dijkstra g orig dest anim s)) v = Fin d)) \<and>
         (previous (snd (dijkstra g orig dest anim s)) v = None \<or>
          (\<exists>u \<in> set (g_nodes g). previous (snd (dijkstra g orig dest anim s)) v = Some u))"
proof -
  let ?s' = "snd (dijkstra g orig dest anim s)"
  have "dist_ok g (distance ?s')"
  proof (cases "orig \<in> set (g_nodes g) \<and> dest \<in> set (g_nodes g)")
    case True
    have "dist_ok g (distance (start_state g orig dest s))"
      by (auto simp: dist_ok_def list_all_iff Let_def)
    from dijkstra_loop_dist_ok [OF assms(1) this, of dest anim "[(Fin 0, orig)]" 0] True
    show ?thesis by (simp add: dijkstra_def Let_def)
  next
    case False
    then show ?thesis by (auto simp: dijkstra_def Let_def dist_ok_def list_all_iff)
  qed
  then have "case distance ?s' v of Inf \<Rightarrow> True | Fin d \<Rightarrow> 0 \<le> d"
    using assms(2) by (simp add: dist_ok_def list_all_iff)
  moreover have "previous ?s' v = None \<or> (\<exists>u \<in> set (g_nodes g). previous ?s' v = Some u)"
    using pred_invD [OF pred_inv_after_dijkstra [OF assms(1)] assms(2)] by (cases "previous ?s' v") auto
  ultimately show ?thesis by (auto split: dist.splits)
qed

end
