(* ===== verification/Metrics.thy ===== *)
theory Metrics
  imports Route
begin

text \<open>
  What the route metrics printed by \<open>reconstruct_path\<close> measure. Walking back
  from the destination, lines 209--212 read \<open>length\<close> and \<open>maxspeed\<close> of
  \<open>G[prev][curr][0]\<close>: the edge with key 0 between the two nodes of each
  predecessor link, whichever parallel edge the search relaxed. The printed
  distance is therefore the length of the key-0 path along the predecessor
  links, and the average speed the mean of its edges' speed limits.
\<close>

section \<open>Definitions\<close>

definition edge_length :: "graph \<Rightarrow> edge \<Rightarrow> real" where
  "edge_length g e = (case edge_data g e of Some d \<Rightarrow> e_length d | None \<Rightarrow> 0)"

definition edge_speed :: "graph \<Rightarrow> edge \<Rightarrow> real" where
  "edge_speed g e = (case edge_data g e of Some d \<Rightarrow> e_maxspeed d | None \<Rightarrow> 0)"

definition path_length :: "graph \<Rightarrow> edge list \<Rightarrow> real" where
  "path_length g es = sum_list (map (edge_length g) es)"

text \<open>A path along predecessor links using the edges with key 0.\<close>

definition key0_link_path :: "graph \<Rightarrow> (node \<Rightarrow> node option) \<Rightarrow> edge list \<Rightarrow> bool" where
  "key0_link_path g prev es \<longleftrightarrow> list_all (\<lambda>e. snd (snd e) = 0 \<and> prev (fst (snd e)) = Some (fst e)) es"

section \<open>The walk measures the key-0 path\<close>

lemma walk_measures_key0:
  assumes inv: "pred_inv g (previous s) (distance s)"
  shows "\<exists>r s'. walk g orig anim alg dest 0 [] 0 s = Some (r, s') \<and>
           (\<forall>l sp k. r = Walk_reached l sp k \<longrightarrow>
              (\<exists>es. is_path g orig es dest \<and> key0_link_path g (previous s) es \<and>
                    l = path_length g es \<and> sp = rev (map (edge_speed g) es)))"
proof -
  let ?P = "previous s"
  let ?I = "\<lambda>c (l :: real) (sp :: real list) (k :: nat) s'. previous s' = ?P \<and>
     (\<exists>es. is_path g c es dest \<and> key0_link_path g ?P es \<and> l = path_length g es \<and> sp = rev (map (edge_speed g) es))"
  let ?Q = "\<lambda>r s'. \<forall>l sp k. r = Walk_reached l sp k \<longrightarrow>
     (\<exists>es. is_path g orig es dest \<and> key0_link_path g ?P es \<and> l = path_length g es \<and> sp = rev (map (edge_speed g) es))"
  have I0: "?I dest 0 [] 0 s"
    by (intro conjI exI [of _ "[]"]) (simp_all add: key0_link_path_def path_length_def)
  show ?thesis
  proof (rule walk_rule [where I = ?I and Q = ?Q, OF inv I0])
    fix c l sp k p d and s' :: gstate
    assume I: "?I c l sp k s'" and prev: "previous s' c = Some p" and ed: "edge_data g (p, c, 0) = Some d"
    from I obtain es where es: "is_path g c es dest" "key0_link_path g ?P es" "l = path_length g es"
      "sp = rev (map (edge_speed g) es)" and P: "previous s' = ?P" by blast
    have mem: "(p, c, 0) \<in> set (map fst (g_edges g))" using edge_data_SomeD [OF ed] by force
    have "is_path g p ((p, c, 0) # es) dest \<and> key0_link_path g ?P ((p, c, 0) # es) \<and>
          l + e_length d = path_length g ((p, c, 0) # es) \<and>
          sp @ [e_maxspeed d] = rev (map (edge_speed g) ((p, c, 0) # es))"
      using es mem prev P ed by (simp add: key0_link_path_def path_length_def edge_length_def edge_speed_def)
    then have "\<exists>es'. is_path g p es' dest \<and> key0_link_path g ?P es' \<and>
          l + e_length d = path_length g es' \<and> sp @ [e_maxspeed d] = rev (map (edge_speed g) es')"
      by (rule exI)
    with P show "?I p (l + e_length d) (sp @ [e_maxspeed d]) (Suc k)
                 (if anim then save_frame k (mark_path_edges g alg p c s') else mark_path_edges g alg p c s')"
      by simp
  qed auto
qed

text \<open>C13. Whatever parallel edge the search used, the route that
  \<open>reconstruct_path\<close> reports after it measures the edges with key 0: on a
  well-formed graph the printed distance is the length (in km) of a path from
  the origin to the destination made of the key-0 edges of the predecessor
  links, and the printed average speed is the mean speed limit of that
  path's edges.\<close>

theorem route_metrics_key0:
  assumes wf: "wf_graph g"
  shows "\<exists>r s'. reconstruct_path g orig dest anim alg (snd (dijkstra g orig dest anim' s)) = Some (r, s') \<and>
           (\<forall>km avg t. r = Inr (Route km avg t) \<longrightarrow>
              (\<exists>es. es \<noteq> [] \<and> is_path g orig es dest \<and>
                    key0_link_path g (previous (snd (dijkstra g orig dest anim' s))) es \<and>
                    km = path_length g es / 1000 \<and>
                    avg = sum_list (map (edge_speed g) es) / real (length es)))"
proof -
  let ?s = "snd (dijkstra g orig dest anim' s)"
  have inv: "pred_inv g (previous (recon_start g ?s)) (distance (recon_start g ?s))"
    using pred_inv_after_dijkstra [OF wf] by simp
  from walk_measures_key0 [OF inv, of orig anim alg dest]
  obtain w s1 where run: "walk g orig anim alg dest 0 [] 0 (recon_start g ?s) = Some (w, s1)"
    and m: "\<forall>l sp k. w = Walk_reached l sp k \<longrightarrow>
              (\<exists>es. is_path g orig es dest \<and> key0_link_path g (previous ?s) es \<and>
                    l = path_length g es \<and> sp = rev (map (edge_speed g) es))"
    by auto
  show ?thesis
  proof (cases w)
    case (Walk_reached l sp k)
    with m obtain es where es: "is_path g orig es dest" "key0_link_path g (previous ?s) es"
      "l = path_length g es" "sp = rev (map (edge_speed g) es)" by auto
    obtain r s' where rr: "route_report anim l sp k s1 = (r, s')" by (metis prod.exhaust)
    have "\<forall>km avg t. r = Inr (Route km avg t) \<longrightarrow>
            (\<exists>es. es \<noteq> [] \<and> is_path g orig es dest \<and> key0_link_path g (previous ?s) es \<and>
                  km = path_length g es / 1000 \<and> avg = sum_list (map (edge_speed g) es) / real (length es))"
      using rr es by (auto simp: route_report_def Let_def split: if_splits)
    moreover have "reconstruct_path g orig dest anim alg ?s = Some (r, s')"
      using rr run Walk_reached by (simp add: reconstruct_path_def)
    ultimately show ?thesis by blast
  qed (use run in \<open>simp_all add: reconstruct_path_def\<close>)
qed

end
