(* ===== verification/Scenarios.thy ===== *)
theory Scenarios
  imports Frames Rerun Render PathStyle Program Distances Metrics
begin

text \<open>
  Concrete road graphs on which the model is run by the kernel (\<open>code_simp\<close>):
  the graph of the specification's scenario (section 8), a graph with
  parallel edges and a raw graph with a \<open>maxspeed=none\<close> tag, and the
  witnesses that the hypotheses of the general theorems hold together on
  them. Node ids \<open>1, 2, 3, 4\<close> stand for \<open>A, B, C, D\<close>.
\<close>

section \<open>Graphs\<close>

definition spec_graph :: graph where
  "spec_graph = \<lparr>g_nodes = [1, 2, 3, 4],
     g_edges = [((1, 2, 0), \<lparr>e_length = 1000, e_maxspeed = 50, e_weight = 1000 / 50\<rparr>),
                ((1, 3, 0), \<lparr>e_length = 500, e_maxspeed = 10, e_weight = 500 / 10\<rparr>),
                ((2, 4, 0), \<lparr>e_length = 1000, e_maxspeed = 50, e_weight = 1000 / 50\<rparr>),
                ((3, 4, 0), \<lparr>e_length = 500, e_maxspeed = 10, e_weight = 500 / 10\<rparr>)]\<rparr>"

text \<open>Two parallel roads from 1 to 2: key 0 is long and slow, key 1 short and
  fast.\<close>

definition parallel_graph :: graph where
  "parallel_graph = \<lparr>g_nodes = [1, 2],
     g_edges = [((1, 2, 0), \<lparr>e_length = 1000, e_maxspeed = 10, e_weight = 1000 / 10\<rparr>),
                ((1, 2, 1), \<lparr>e_length = 500, e_maxspeed = 50, e_weight = 500 / 50\<rparr>)]\<rparr>"

text \<open>The specification's graph as osmnx would deliver it, with raw speed tags:
  a plain number, a list of tags (the minimum is kept) and tags with units.\<close>

definition spec_raw :: raw_graph where
  "spec_raw = \<lparr>rg_nodes = [1, 2, 3, 4],
     rg_edges = [((1, 2, 0), \<lparr>r_length = 1000, r_maxspeed = Some (SStr ''50'')\<rparr>),
                 ((1, 3, 0), \<lparr>r_length = 500, r_maxspeed = Some (SList [''30 mph'', ''10''])\<rparr>),
                 ((2, 4, 0), \<lparr>r_length = 1000, r_maxspeed = Some (SStr ''50 km/h'')\<rparr>),
                 ((3, 4, 0), \<lparr>r_length = 500, r_maxspeed = Some (SStr ''10'')\<rparr>)]\<rparr>"

text \<open>An OpenStreetMap tag \<open>maxspeed=none\<close> (no limit) on the second edge.\<close>

definition none_raw :: raw_graph where
  "none_raw = \<lparr>rg_nodes = [1, 2, 3],
     rg_edges = [((1, 2, 0), \<lparr>r_length = 1000, r_maxspeed = None\<rparr>),
                 ((2, 3, 0), \<lparr>r_length = 1000, r_maxspeed = Some (SStr ''none'')\<rparr>)]\<rparr>"

abbreviation spec_run :: "(error + nat) \<times> gstate" where
  "spec_run \<equiv> dijkstra spec_graph 1 4 False init_gstate"

section \<open>Evaluations\<close>

lemma spec_graph_wf: "wf_graph spec_graph"
  by (simp add: wf_graph_def spec_graph_def)

lemma spec_run_fst: "fst spec_run = Inr 2"
  by code_simp

lemma spec_run_eq: "spec_run = (Inr 2, snd spec_run)"
  using spec_run_fst by (metis prod.collapse)

lemma pred_inv_init: "pred_inv g (previous init_gstate) (distance init_gstate)"
  by (rule pred_invI) (simp add: init_gstate_def)

lemma spec_raw_wf: "raw_wf spec_raw"
  by (simp add: raw_wf_def spec_raw_def)

lemma spec_raw_clean: "clean_graph spec_raw = Inr spec_graph"
  by code_simp

lemma parallel_graph_wf: "wf_graph parallel_graph"
  by (simp add: wf_graph_def parallel_graph_def)

lemma parallel_run:
  "distance (snd (dijkstra parallel_graph 1 2 False init_gstate)) 2 = Fin 10 \<and>
   map_option fst (reconstruct_path parallel_graph 1 2 False None (snd (dijkstra parallel_graph 1 2 False init_gstate)))
     = Some (Inr (Route 1 10 6))"
proof -
  have "distance (snd (dijkstra parallel_graph 1 2 False init_gstate)) 2 = Fin 10" by code_simp
  moreover have "map_option fst (reconstruct_path parallel_graph 1 2 False None
                   (snd (dijkstra parallel_graph 1 2 False init_gstate))) = Some (Inr (Route 1 10 6))"
    by code_simp
  ultimately show ?thesis by simp
qed

lemma crash_run: "\<exists>s. run_script spec_raw 1 1 True = Some (Inl ZeroDivisionError, s) \<and> frame_count s = 22"
  using run_script_same_endpoint [OF spec_raw_clean] by (simp add: spec_graph_def)

lemma spec_nodes: "(1::node) \<in> set (g_nodes spec_graph)" "(4::node) \<in> set (g_nodes spec_graph)"
  by (simp_all add: spec_graph_def)

lemma spec_back_run: "map_option (\<lambda>(r, s). (r, frame_count s)) (run_script spec_raw 4 1 True) = Some (Inr Unaccessible_goal, 1)"
  by code_simp

section \<open>Witnesses\<close>

theorem dijkstra_step_count_witness:
  "dijkstra spec_graph 1 4 False init_gstate = (Inr 2, snd spec_run) \<and>
   2 = card {n \<in> set (g_nodes spec_graph). visited (snd spec_run) n}"
  using spec_run_eq dijkstra_step_count [OF spec_run_eq] by simp

theorem dijkstra_pred_inv_witness:
  "wf_graph spec_graph \<and> pred_inv spec_graph (previous (snd spec_run)) (distance (snd spec_run))"
  using spec_graph_wf dijkstra_pred_inv [OF spec_graph_wf] by simp

theorem reconstruct_after_dijkstra_returns_witness:
  "wf_graph spec_graph \<and> (\<exists>r. reconstruct_path spec_graph 1 4 False None (snd spec_run) = Some r)"
  using spec_graph_wf reconstruct_after_dijkstra_returns [OF spec_graph_wf] by simp

theorem reconstruct_path_errors_witness:
  "wf_graph spec_graph \<and> (4::node) \<in> set (g_nodes spec_graph) \<and>
   pred_inv spec_graph (previous init_gstate) (distance init_gstate) \<and>
   (\<exists>r s'. reconstruct_path spec_graph 1 4 False None init_gstate = Some (r, s') \<and>
           r \<noteq> Inl KeyError \<and> (r = Inl ZeroDivisionError \<longleftrightarrow> (1::node) = 4))"
proof -
  have n: "(4::node) \<in> set (g_nodes spec_graph)" by (simp add: spec_graph_def)
  show ?thesis
    using spec_graph_wf n pred_inv_init reconstruct_path_errors [OF spec_graph_wf n pred_inv_init]
    by blast
qed

theorem dijkstra_correct_witness:
  "wf_graph spec_graph \<and> dijkstra spec_graph 1 4 False init_gstate = (Inr 2, snd spec_run) \<and>
   search_result spec_graph 1 4 (snd spec_run)"
  using spec_graph_wf spec_run_eq dijkstra_correct [OF spec_graph_wf spec_run_eq] by simp

theorem dijkstra_result_witness:
  "wf_graph spec_graph \<and>
   fst spec_run = Inr (card {n \<in> set (g_nodes spec_graph). visited (snd spec_run) n})"
  using spec_graph_wf spec_nodes dijkstra_result [OF spec_graph_wf, of 1 4 False init_gstate] by simp

theorem search_then_reconstruct_witness:
  "wf_graph spec_graph \<and> spec_run = (Inr 2, snd spec_run) \<and> (1::node) \<noteq> 4 \<and>
   (\<exists>r s2. reconstruct_path spec_graph 1 4 False None (snd spec_run) = Some (r, s2) \<and>
      (reachable spec_graph 1 4 \<longrightarrow> (\<exists>km avg t. r = Inr (Route km avg t))) \<and>
      (\<not> reachable spec_graph 1 4 \<longrightarrow> r = Inr Unaccessible_goal))"
  using spec_graph_wf spec_run_eq search_then_reconstruct [OF spec_graph_wf spec_run_eq, of False None]
  by simp

theorem script_outcome_witness:
  "raw_wf spec_raw \<and> clean_graph spec_raw = Inr spec_graph \<and>
   (1::node) \<in> set (rg_nodes spec_raw) \<and> (4::node) \<in> set (rg_nodes spec_raw) \<and>
   (\<exists>r s. run_script spec_raw 1 4 True = Some (r, s) \<and> ((1::node) = 4 \<longrightarrow> r = Inl ZeroDivisionError) \<and>
      ((1::node) \<noteq> 4 \<longrightarrow> (reachable spec_graph 1 4 \<longrightarrow> (\<exists>km avg t. r = Inr (Route km avg t))) \<and>
                         (\<not> reachable spec_graph 1 4 \<longrightarrow> r = Inr Unaccessible_goal)))"
proof -
  have n: "(1::node) \<in> set (rg_nodes spec_raw)" "(4::node) \<in> set (rg_nodes spec_raw)"
    by (simp_all add: spec_raw_def)
  show ?thesis
    using spec_raw_wf spec_raw_clean n script_outcome [OF spec_raw_wf spec_raw_clean n, of True] by blast
qed

theorem clean_graph_wf_witness:
  "raw_wf spec_raw \<and> clean_graph spec_raw = Inr spec_graph \<and> wf_graph spec_graph"
  using spec_raw_wf spec_raw_clean clean_graph_wf [OF spec_raw_wf spec_raw_clean] by simp

theorem speed_of_str_show_nat_witness:
  "\<not> list_ex py_isdigit '''' \<and> \<not> list_ex py_isdigit '' km/h'' \<and>
   speed_of_str ('''' @ show_nat 50 @ '' km/h'') = Inr 50"
proof -
  have "\<not> list_ex py_isdigit ''''" "\<not> list_ex py_isdigit '' km/h''" by (simp_all add: py_isdigit_def)
  with speed_of_str_show_nat [OF this, of 50] show ?thesis by simp
qed

theorem speed_of_str_joins_values_witness:
  "\<not> py_isdigit (CHR '';'') \<and> show_nat 50 @ CHR '';'' # show_nat 30 = ''50;30'' \<and>
   speed_of_str ''50;30'' = Inr 5030"
proof -
  have c: "\<not> py_isdigit (CHR '';'')" by (simp add: py_isdigit_def)
  have s: "show_nat 50 @ CHR '';'' # show_nat 30 = ''50;30''" "length (show_nat 30) = 2" by code_simp+
  from speed_of_str_joins_values [OF c, of 50 30] c s show ?thesis by simp
qed

theorem script_frames_in_order_witness:
  "raw_wf spec_raw \<and>
   (\<exists>r s. run_script spec_raw 1 4 False = Some (r, s) \<and> frame_count s \<le> 100000 \<and>
      map fst (frames s) = [0..<frame_count s] \<and>
      video_order (map (frame_name \<circ> fst) (frames s)) = map (frame_name \<circ> fst) (frames s))"
proof -
  have "map_option (frame_count \<circ> snd) (run_script spec_raw 1 4 False) = Some 2" by code_simp
  then obtain r s where rs: "run_script spec_raw 1 4 False = Some (r, s)" "frame_count s = 2"
    by (cases "run_script spec_raw 1 4 False") auto
  with spec_raw_wf script_frames_in_order [OF spec_raw_wf rs(1)] show ?thesis by auto
qed

theorem video_plays_in_order_witness:
  "(3::nat) \<le> 100000 \<and> video_order (map frame_name [0..<3]) = map frame_name [0..<3]"
  using video_plays_in_order [of 3] by simp

theorem dijkstra_state_independent_witness:
  "wf_graph spec_graph \<and>
   fst (dijkstra spec_graph 1 4 False init_gstate) = fst (dijkstra spec_graph 1 4 False (snd spec_run)) \<and>
   agree spec_graph (snd (dijkstra spec_graph 1 4 False init_gstate)) (snd (dijkstra spec_graph 1 4 False (snd spec_run)))"
  using spec_graph_wf dijkstra_state_independent [OF spec_graph_wf, of 1 4 False init_gstate "snd spec_run"] by simp

theorem dijkstra_finds_reachable_witness:
  "wf_graph spec_graph \<and> (1::node) \<in> set (g_nodes spec_graph) \<and> (4::node) \<in> set (g_nodes spec_graph) \<and>
   reachable spec_graph 1 4 \<and>
   (\<exists>k s'. dijkstra spec_graph 1 4 True init_gstate = (Inr k, s') \<and> stage s' = Found \<and>
      (\<exists>d. distance s' 4 = Fin d \<and> shortest spec_graph 1 4 d))"
proof -
  have "is_path spec_graph 1 [(1, 2, 0), (2, 4, 0)] 4" by (simp add: spec_graph_def)
  then have r: "reachable spec_graph 1 4" unfolding reachable_def by blast
  show ?thesis
    using spec_graph_wf spec_nodes r dijkstra_finds_reachable [OF spec_graph_wf spec_nodes r, of True init_gstate]
    by blast
qed

theorem reconstruct_styles_path_witness:
  "wf_graph spec_graph \<and> (4::node) \<in> set (g_nodes spec_graph) \<and>
   (\<exists>r s'. reconstruct_path spec_graph 1 4 True None (snd spec_run) = Some (r, s') \<and>
      list_all (\<lambda>e. estyle s' e =
         (if path_edge spec_graph (previous (snd spec_run)) 1 4 e then OnPath else Unvisited))
        (map fst (g_edges spec_graph)))"
proof -
  from reconstruct_styles_path [OF spec_graph_wf spec_nodes(2), of 1 True None False init_gstate]
  obtain r s' where "reconstruct_path spec_graph 1 4 True None (snd spec_run) = Some (r, s')"
    "\<forall>e \<in> set (map fst (g_edges spec_graph)). estyle s' e =
       (if path_edge spec_graph (previous (snd spec_run)) 1 4 e then OnPath else Unvisited)"
    by blast
  with spec_graph_wf spec_nodes show ?thesis by (auto simp: list_all_iff)
qed


theorem dijkstra_attribute_types_witness:
  "wf_graph spec_graph \<and> (4::node) \<in> set (g_nodes spec_graph) \<and>
   (distance (snd spec_run) 4 = Inf \<or> (\<exists>d. 0 \<le> d \<and> distance (snd spec_run) 4 = Fin d)) \<and>
   (previous (snd spec_run) 4 = None \<or> (\<exists>u \<in> set (g_nodes spec_graph). previous (snd spec_run) 4 = Some u))"
  using spec_graph_wf spec_nodes dijkstra_attribute_types [OF spec_graph_wf spec_nodes(2), of 1 4 False init_gstate]
  by simp

theorem digitless_tag_stops_script_witness:
  "((2, 3, 0), \<lparr>r_length = 1000, r_maxspeed = Some (SStr ''none'')\<rparr>) \<in> set (rg_edges none_raw) \<and>
   \<not> list_ex py_isdigit ''none'' \<and> (\<exists>e. run_script none_raw 1 3 False = Some (Inl e, init_gstate))"
proof -
  have m: "((2, 3, 0), \<lparr>r_length = 1000, r_maxspeed = Some (SStr ''none'')\<rparr>) \<in> set (rg_edges none_raw)"
    by (simp add: none_raw_def)
  have d: "\<not> list_ex py_isdigit ''none''" by (simp add: py_isdigit_def)
  from m d digitless_tag_stops_script [OF m _ d, of 1 3 False] show ?thesis by simp
qed

theorem video_out_of_order_beyond_bound_witness:
  "100000 < (100001::nat) \<and> video_order (map frame_name [0..<100001]) \<noteq> map frame_name [0..<100001]"
proof (rule conjI)
  show "100000 < (100001::nat)" by simp
  show "video_order (map frame_name [0..<100001]) \<noteq> map frame_name [0..<100001]"
    by (rule video_out_of_order_beyond_bound) simp
qed

theorem search_frames_mark_endpoints_witness:
  "list_all (\<lambda>fr. snd (snd fr) = (\<lambda>n. n = 1 \<or> n = 4)) (frames (snd spec_run))"
  using search_frames_mark_endpoints [of spec_graph 1 4 False] by (simp only: list_all_iff)

theorem route_metrics_key0_witness:
  "wf_graph parallel_graph \<and> distance (snd (dijkstra parallel_graph 1 2 False init_gstate)) 2 = Fin 10 \<and>
   (\<exists>s'. reconstruct_path parallel_graph 1 2 False None (snd (dijkstra parallel_graph 1 2 False init_gstate))
           = Some (Inr (Route 1 10 6), s')) \<and>
   (\<exists>es. is_path parallel_graph 1 es 2 \<and>
      key0_link_path parallel_graph (previous (snd (dijkstra parallel_graph 1 2 False init_gstate))) es \<and>
      path_length parallel_graph es = 1000)"
proof -
  obtain r s' where rs: "reconstruct_path parallel_graph 1 2 False None (snd (dijkstra parallel_graph 1 2 False init_gstate))
                         = Some (r, s')"
    and m: "\<forall>km avg t. r = Inr (Route km avg t) \<longrightarrow>
              (\<exists>es. es \<noteq> [] \<and> is_path parallel_graph 1 es 2 \<and>
                    key0_link_path parallel_graph (previous (snd (dijkstra parallel_graph 1 2 False init_gstate))) es \<and>
                    km = path_length parallel_graph es / 1000 \<and>
                    avg = sum_list (map (edge_speed parallel_graph) es) / real (length es))"
    using route_metrics_key0 [OF parallel_graph_wf, of 1 2 False None False init_gstate] by blast
  have r: "r = Inr (Route 1 10 6)" using parallel_run rs by simp
  with m obtain es where "is_path parallel_graph 1 es 2"
      "key0_link_path parallel_graph (previous (snd (dijkstra parallel_graph 1 2 False init_gstate))) es"
      "1 = path_length parallel_graph es / 1000" by blast
  with rs r parallel_graph_wf parallel_run show ?thesis by auto
qed

theorem crash_frames_in_next_video_witness:
  "raw_wf spec_raw \<and> clean_graph spec_raw = Inr spec_graph \<and> (1::node) \<in> set (g_nodes spec_graph) \<and>
   (\<forall>d. mset (rev (map fst d)) = mset (map fst (d :: folder))) \<and>
   (\<exists>s2. run_script spec_raw 4 1 True = Some (Inr Unaccessible_goal, s2) \<and> frame_count s2 \<le> 100000 \<and>
     (\<exists>s1 F. run_script spec_raw 1 1 True = Some (Inl ZeroDivisionError, s1) \<and> length (frames s1) = 22 \<and>
        run_program (\<lambda>d. rev (map fst d)) spec_raw 1 1 True None = Some (Inl ZeroDivisionError, None, Some F) \<and>
        run_program (\<lambda>d. rev (map fst d)) spec_raw 4 1 True (Some F) =
          Some (Inr Unaccessible_goal, Some (frames s2 @ drop (frame_count s2) (frames s1)), None)))"
proof -
  obtain s2 where r2: "run_script spec_raw 4 1 True = Some (Inr Unaccessible_goal, s2)" "frame_count s2 = 1"
    using spec_back_run by (cases "run_script spec_raw 4 1 True") auto
  have ls: "\<forall>d. mset (rev (map fst d)) = mset (map fst (d :: folder))" by simp
  from crash_frames_in_next_video [OF spec_raw_wf spec_raw_clean spec_nodes(1) r2(1) _ ls] r2(2)
  show ?thesis using spec_raw_wf spec_raw_clean spec_nodes(1) r2 ls by auto
qed

theorem program_video_stale_frames_witness:
  "raw_wf spec_raw \<and> (\<forall>d. mset (rev (map fst d)) = mset (map fst (d :: folder))) \<and>
   (\<exists>s1 s2. run_script spec_raw 1 1 True = Some (Inl ZeroDivisionError, s1) \<and>
      run_script spec_raw 4 1 True = Some (Inr Unaccessible_goal, s2) \<and> frame_count s2 \<le> 100000 \<and>
      map fst (frames s1) = [0..<22] \<and> (22::nat) \<le> 100000 \<and>
      run_program (\<lambda>d. rev (map fst d)) spec_raw 4 1 True (Some (save_files (frames s1) [])) =
        Some (Inr Unaccessible_goal, Some (frames s2 @ drop (frame_count s2) (frames s1)), None))"
proof -
  obtain s1 where r1: "run_script spec_raw 1 1 True = Some (Inl ZeroDivisionError, s1)" "frame_count s1 = 22"
    using crash_run by blast
  obtain s2 where r2: "run_script spec_raw 4 1 True = Some (Inr Unaccessible_goal, s2)" "frame_count s2 = 1"
    using spec_back_run by (cases "run_script spec_raw 4 1 True") auto
  have n1: "map fst (frames s1) = [0..<22]"
    using run_script_numbered [OF spec_raw_wf r1(1)] r1(2) by (simp add: frames_numbered_def)
  have b: "frame_count s2 \<le> 100000" "(22::nat) \<le> 100000" using r2(2) by simp_all
  have ls: "\<forall>d. mset (rev (map fst d)) = mset (map fst (d :: folder))" by simp
  from program_video_stale_frames [OF spec_raw_wf r2(1) b(1) n1 b(2) ls] spec_raw_wf r1(1) r2(1) n1 b ls
  show ?thesis by blast
qed

end
