(* ===== verification/Spec2Isabelle.thy ===== *)
theory Spec2Isabelle
  imports Scenarios
begin

text \<open>
  \<^bold>\<open>A verification development of the pathfinding animator\<close>
  (\<open>src/main.py\<close>, one Python script).

  \<^bold>\<open>The program.\<close> The script loads a road graph with osmnx (lines 10--13),
  cleans the speed limits into edge weights \<open>length / maxspeed\<close> (lines
  26--37), runs an instrumented Dijkstra search \<open>dijkstra\<close> (lines 127--184)
  that stores its state as attributes on the graph's nodes and edges, walks the
  predecessor links back from the destination in \<open>reconstruct_path\<close> (lines
  187--225) to style the route and print distance, average speed and travel
  time, and saves animation frames through \<open>save_frame\<close> (lines 97--124),
  sampled by the global \<open>stage\<close>. The main part (lines 246--253) picks two
  random nodes, calls the search and the reconstruction, and encodes the
  frames into a video.

  \<^bold>\<open>Theories and correspondence.\<close>
  \<^item> \<open>Prelude\<close>: node/edge ids; \<open>dist\<close>, the float distances with
    \<open>float("inf")\<close> as reals extended by \<open>Inf\<close> (a \<open>linorder\<close> instance, so
    Python's comparisons read as \<open><\<close>); \<open>dist_add\<close> for \<open>d + w\<close>; the exceptions
    \<open>KeyError\<close>, \<open>ZeroDivisionError\<close>, \<open>ValueError\<close>; shared lemmas on folds
    and cardinalities.
  \<^item> \<open>Graph\<close>: the multigraph (\<open>graph\<close>: \<open>G.nodes\<close> and \<open>G.edges(keys=True,
    data=True)\<close> in iteration order), \<open>out_edges\<close>, \<open>edge_data\<close> (\<open>G.edges[e]\<close>),
    \<open>edge_keys\<close> (\<open>G[u][v]\<close>); the record \<open>gstate\<close> of every attribute the script
    writes on nodes and edges and of the globals \<open>stage\<close>, \<open>frame_count\<close>
    (with the written frames); the \<open>style_*\<close> helpers and the reset loop of
    \<open>dijkstra\<close>; \<open>wf_graph\<close>, the search's precondition.
  \<^item> \<open>Clean\<close>: the cleaning loop (lines 26--37) from the raw \<open>maxspeed\<close> tags
    (absent, string, list of strings, int): \<open>str.isdigit\<close> filtering,
    \<open>int()\<close>, \<open>min()\<close>, the default 60 and \<open>weight = length / maxspeed\<close>, with
    \<open>ValueError\<close> and \<open>ZeroDivisionError\<close> as values; \<open>show_nat\<close> is decimal
    printing, the inverse the parser is checked against.
  \<^item> \<open>Sink\<close>: \<open>save_frame\<close> with its stage-dependent sampling; a frame records
    what it draws (edge styles, highlighted nodes) and its file number.
  \<^item> \<open>Frontier\<close>: \<open>heapq.heappush\<close>/\<open>heappop\<close> on \<open>pq\<close> as a sorted list of
    \<open>(distance, node)\<close> tuples in Python's tuple order; its abstraction is the
    multiset of entries with removal of the least.
  \<^item> \<open>Search\<close>: \<open>relax_edges\<close> (the \<open>for edge in G.out_edges(node)\<close> loop),
    \<open>dijkstra_loop\<close> (the \<open>while pq\<close> loop, a \<open>function\<close> whose termination
    measure is the number of unvisited nodes, then the frontier length) and
    \<open>dijkstra\<close>; a call returns the returned step counter or the raised
    exception, with the state left behind in both cases. \<open>dijkstra_loop_rule\<close>
    is a Hoare-style rule for the loop from which the loop invariants follow.
  \<^item> \<open>Paths\<close>: paths as lists of multigraph edges, their weights, reachability
    and shortest distances: the specification of the search.
  \<^item> \<open>Correctness\<close>: the search invariant \<open>dj_inv\<close> (the abstract Dijkstra
    invariant adapted to lazy deletion and to the early exit at the
    destination), its preservation by each iteration, and \<open>search_result\<close>,
    what a returning run establishes.
  \<^item> \<open>Reconstruct\<close>: \<open>walk\<close> (the \<open>while curr != orig\<close> loop, a
    \<open>partial_function (option)\<close>: on an arbitrary state the links may cycle),
    \<open>route_report\<close> (the metrics and their printing) and \<open>reconstruct_path\<close>;
    \<open>walk_rule\<close> is a total-correctness rule for the walk under the
    predecessor invariant.
  \<^item> \<open>Route\<close>: the search followed by the reconstruction; \<open>pred_total\<close> (every
    reached node but the origin has a predecessor) is kept by the search.
  \<^item> \<open>Script\<close>: \<open>run_script\<close>, the main part: cleaning, the \<open>ValueError\<close>
    of the rendering set-up on a graph without nodes (line 92), then
    \<open>dijkstra\<close> and \<open>reconstruct_path\<close> from the initial globals, endpoints as
    parameters.
  \<^item> \<open>Rerun\<close>: \<open>agree\<close>, equality of the search attributes on the graph's
    nodes, and the proof that a search's outcome does not depend on the state
    an earlier run left on the graph.
  \<^item> \<open>Video\<close>: the frame file names \<open>frame_{n:05d}.png\<close> (line 122) and
    the order in which \<open>generate_video\<close> reads them (lines 228--233: the
    \<open>.png\<close> names of the folder sorted as Python sorts strings, the
    lexicographic order of \<open>List_Lexorder\<close>; the common folder prefix of the
    joined paths does not change the order).
  \<^item> \<open>Frames\<close>: the frame numbering over a whole run of the script.
  \<^item> \<open>Render\<close>: the rendering set-up (lines 65--94) and what a frame draws
    (lines 109--117): node coordinates and edge geometries as the parameter
    \<open>geo\<close>, \<open>edges_keys\<close> and \<open>edges_lines\<close> (the polylines of the
    \<open>LineCollection\<close>), \<open>style_attrs\<close> (\<open>G.edges[e].get(attr, default)\<close>),
    \<open>lc_setup\<close>, \<open>axis_limits\<close> (\<open>set_xlim\<close>/\<open>set_ylim\<close> from the node
    coordinates, \<open>ValueError\<close> on an empty graph) and \<open>draw_frame\<close>; the
    node markers of the frames the search saves.
  \<^item> \<open>PathStyle\<close>: \<open>on_chain\<close>, an inductive predicate for the nodes met
    walking \<open>previous\<close> links back from the destination, and \<open>path_edge\<close>, the
    edges of the walked links: the specification of the path styling of
    \<open>reconstruct_path\<close>.
  \<^item> \<open>Program\<close>: the program around the script: the frames folder (created
    with \<open>exist_ok=True\<close>, line 23) as an association list from file names to
    the frames they show, \<open>save_files\<close> (the \<open>plt.savefig\<close> writes, lines
    122--123), \<open>generate_video\<close> (lines 227--244: the sorted \<open>.png\<close> files
    read into the video, then the folder removed) and \<open>run_program\<close> (lines
    246--253). \<open>os.listdir\<close> returns the files in an order the system
    chooses: it is the parameter \<open>listdir\<close>, and the theorems hold for every
    listing that names each file once.
  \<^item> \<open>Metrics\<close>: the lengths and speed limits of paths, and \<open>key0_link_path\<close>:
    what the printed route metrics measure.
  \<^item> \<open>Distances\<close>: \<open>dist_ok\<close>, the range of the \<open>distance\<close> attribute
    (\<open>float("inf")\<close> or a non-negative number), kept by every step of the
    search.
  \<^item> \<open>Scenarios\<close>: the specification's graph, a graph with parallel edges and
    a raw graph with a \<open>maxspeed=none\<close> tag, evaluated by the kernel
    (\<open>code_simp\<close>), and the witnesses of the general theorems on them.

  \<^bold>\<open>What is proved.\<close> A returning search has shortest-path distances at every
  finalised node and at a found destination, and an unreachable destination
  when it exhausts the frontier (C1); it counts exactly the nodes it
  finalises (C2) and keeps predecessor links along edges to strictly smaller
  distances (C3). After it, the reconstruction prints a route exactly for a
  reachable destination and the unreachable message otherwise (C4); it always
  returns (C5), never raises \<open>KeyError\<close> and raises \<open>ZeroDivisionError\<close> exactly
  for equal endpoints (C6, C7), where the specification asks for all-zero
  metrics. The search raises only for unknown endpoints (C8). For the whole
  script, every choice of endpoints on an accepted graph ends as C4 and C7
  say (C9); cleaning yields a well-formed graph (C10) and parses a printed
  number back (C11), but joins the digits of multi-valued tags (C12). The
  printed metrics measure the key-0 edges of the predecessor links, whichever
  parallel edge the search relaxed (C13); a tag without digits stops the
  script before the search (C14). Every run writes its frames numbered without
  gap (C15), and the encoder plays them in order up to 100000 frames (C16),
  a bound that is exact: every longer animation is out of order (C17).
  Because the reset at the start of \<open>dijkstra\<close> is complete, a search gives
  the same outcome from any prior state (C18). On a well-formed graph a search
  towards a reachable destination returns, in the found stage, with the
  shortest distance (C19). Every frame of a search marks exactly its two
  endpoints (C20). The reconstruction styles as path exactly the parallel
  edges of the walked predecessor links and every other edge as unvisited
  (C21). The video of a run is its own frames followed by those an earlier run
  left in the folder (C22), as happens after every run with equal endpoints,
  which crashes after saving 22 frames (C23). Whatever a search returns or
  raises, the node attributes it leaves have the expected range (C24).

  \<^bold>\<open>Bounds and fuel.\<close> The only numeric bound of the program is the
  five-digit frame counter in the file names: 100000 frames. No fuel is used: the search loop terminates by its
  measure, and the reconstruction loop, partial in general, is proved to return
  under the predecessor invariant, by induction on the number of nodes closer
  than the current one.

  \<^bold>\<open>Not modelled.\<close> Loading the map (osmnx, network I/O), the figure and
  colour constants of the matplotlib set-up (lines 86--88 and 94) and the
  rasterisation beyond the drawn content of \<open>draw_frame\<close>, PNG and video
  encoding, and the random choice of endpoints (the model takes them as
  parameters and its theorems cover every choice). Floats are exact reals:
  rounding is not modelled. Characters are 8-bit (Latin-1); \<open>int()\<close> is
  modelled on the digit strings the script passes it. CPython's \<open>heapq\<close> is
  library code; the frontier is modelled by its contract, a sorted list
  (\<open>frontier_refines\<close> relates it to a multiset priority queue).
\<close>

end
